theory Spec2Isabelle
  imports Main "HOL-Library.Word"
begin

section \<open>gostat: display and set file time stamps\<close>

text \<open>
  A shallow embedding of \<^verbatim>\<open>gostat.go\<close>. The program talks to the operating system
  through four calls (\<^verbatim>\<open>filepath.Glob\<close>, \<^verbatim>\<open>os.Stat\<close>, \<^verbatim>\<open>times.Stat\<close>,
  \<^verbatim>\<open>os.Chtimes\<close>); they are the fields of an interface record over an arbitrary type
  of worlds, so every theorem holds for every file system. What the program prints, logs
  and asks the operating system to change is recorded as a list of events.
\<close>

subsection \<open>Instants\<close>

text \<open>
  Go's \<^verbatim>\<open>time.Time\<close> is an instant (seconds since the Unix epoch and nanoseconds
  within the second) together with the location whose zone rules its calendar accessors
  use. A location is its table of zone transitions: the offset (seconds east of UTC) in
  force before the first transition, and the transitions (Unix time, new offset) in
  ascending order.
\<close>

datatype Location = Location (zoneFirst: int) (zoneTrans: "(int \<times> int) list")

definition UTC :: Location where
  "UTC = Location 0 []"

record Time =
  t_unix :: int
  t_nsec :: int
  t_loc :: Location

text \<open>The zero value \<^verbatim>\<open>time.Time{}\<close>: January 1, year 1, 00:00:00 UTC.\<close>

definition zeroTime :: Time where
  "zeroTime = \<lparr>t_unix = - 62135596800, t_nsec = 0, t_loc = UTC\<rparr>"

subsection \<open>The operating system\<close>

type_synonym int64 = "64 word"

text \<open>What \<^verbatim>\<open>times.Stat\<close> returns: the \<^verbatim>\<open>Timespec\<close> interface of
  \<^verbatim>\<open>github.com/djherbis/times\<close>.\<close>

record Timespec =
  AccessTime :: Time
  ModTime :: Time
  HasChangeTime :: bool
  ChangeTime :: Time
  HasBirthTime :: bool
  BirthTime :: Time

text \<open>
  \<^item> \<open>os_Glob\<close>: \<^verbatim>\<open>filepath.Glob\<close>; \<open>None\<close> is the error (a malformed pattern).
  \<^item> \<open>os_Stat\<close>: \<^verbatim>\<open>os.Stat\<close>; the size of the entry, \<open>None\<close> is the error.
  \<^item> \<open>times_Stat\<close>: \<^verbatim>\<open>times.Stat\<close>; \<open>None\<close> is the error.
  \<^item> \<open>os_Chtimes\<close>: \<^verbatim>\<open>os.Chtimes\<close>; the world after the call and whether it succeeded.
\<close>

record 'w OS =
  os_Glob :: "'w \<Rightarrow> string \<Rightarrow> string list option"
  os_Stat :: "'w \<Rightarrow> string \<Rightarrow> int64 option"
  times_Stat :: "'w \<Rightarrow> string \<Rightarrow> Timespec option"
  os_Chtimes :: "'w \<Rightarrow> string \<Rightarrow> Time \<Rightarrow> Time \<Rightarrow> 'w \<times> bool"

text \<open>What is printed on standard output (\<open>Out\<close>), what is written to standard error by
  \<open>showUsage\<close> and \<open>showVersion\<close> (\<open>Err\<close>) and by the logger (\<open>Log\<close>), and the calls that
  change the world.\<close>

datatype event =
    OutName string
  | OutSize string
  | OutBtime Time
  | OutCtime Time
  | OutMtime Time
  | OutAtime Time
  | OutBlank
  | ErrUsage
  | ErrVersion
  | LogGlobError string
  | LogLstatError string
  | LogGetFileTimesError string
  | LogChtimesError string
  | LogFatal string
  | CallChtimes string Time Time

text \<open>How a function ends: it returns, the process exits with a status
  (\<^verbatim>\<open>os.Exit\<close>, \<^verbatim>\<open>log.Fatalf\<close>), or a run-time panic.\<close>

datatype 'a outcome = Return 'a | Exit int | Panic

subsection \<open>expandGlobs\<close>

fun expandGlobs_loop ::
  "'w OS \<Rightarrow> 'w \<Rightarrow> string list \<Rightarrow> event list \<times> string list \<Rightarrow> event list \<times> string list" where
  "expandGlobs_loop os w [] (tr, allFiles) = (tr, allFiles)"
| "expandGlobs_loop os w (glob # rest) (tr, allFiles) =
     (case os_Glob os w glob of
        None \<Rightarrow> expandGlobs_loop os w rest (tr @ [LogGlobError glob], allFiles)
      | Some globbed \<Rightarrow>
          if length globbed > 0 then expandGlobs_loop os w rest (tr, allFiles @ globbed)
          else (case os_Stat os w glob of
                  Some _ \<Rightarrow> expandGlobs_loop os w rest (tr, allFiles @ [glob])
                | None \<Rightarrow> expandGlobs_loop os w rest (tr, allFiles)))"

definition expandGlobs :: "'w OS \<Rightarrow> 'w \<Rightarrow> string list \<Rightarrow> event list \<times> string list" where
  "expandGlobs os w args = expandGlobs_loop os w args ([], [])"

subsection \<open>getFileTimes\<close>

definition getFileTimes :: "'w OS \<Rightarrow> 'w \<Rightarrow> string \<Rightarrow> event list \<times> (string \<rightharpoonup> Time)" where
  "getFileTimes os w file =
     (let fileTimes = Map.empty in
      case times_Stat os w file of
        None \<Rightarrow> ([LogGetFileTimesError file], fileTimes)
      | Some t \<Rightarrow>
          (let fileTimes = fileTimes(''a'' \<mapsto> AccessTime t);
               fileTimes = fileTimes(''m'' \<mapsto> ModTime t);
               fileTimes = (if HasChangeTime t then fileTimes(''c'' \<mapsto> ChangeTime t) else fileTimes);
               fileTimes = (if HasBirthTime t then fileTimes(''b'' \<mapsto> BirthTime t) else fileTimes)
           in ([], fileTimes)))"

text \<open>Reading a Go map at a key it does not hold gives the zero value.\<close>

definition index :: "(string \<rightharpoonup> Time) \<Rightarrow> string \<Rightarrow> Time" where
  "index m k = (case m k of None \<Rightarrow> zeroTime | Some v \<Rightarrow> v)"

subsection \<open>FormatWithCommas\<close>

text \<open>\<^verbatim>\<open>strconv.FormatInt(n, 10)\<close>: the decimal digits of the magnitude, most significant
  first, after a minus sign when \<open>n\<close> is negative.\<close>

fun digits10 :: "nat \<Rightarrow> string" where
  "digits10 n =
     (if n < 10 then [''0123456789'' ! n]
      else digits10 (n div 10) @ [''0123456789'' ! (n mod 10)])"

declare digits10.simps [simp del]

definition FormatInt :: "int \<Rightarrow> string" where
  "FormatInt n = (if n < 0 then CHR ''-'' # digits10 (nat (- n)) else digits10 (nat n))"

text \<open>Go's integer division truncates towards zero.\<close>

definition quo :: "int \<Rightarrow> int \<Rightarrow> int" where
  "quo a b = sgn a * sgn b * (\<bar>a\<bar> div \<bar>b\<bar>)"

text \<open>
  The loop of \<open>FormatWithCommas\<close>. Each iteration stores \<open>in[i]\<close> at \<open>out[j]\<close>; an index
  outside the slice is a run-time panic (\<open>None\<close>).
\<close>

function FormatWithCommas_loop :: "string \<Rightarrow> int \<Rightarrow> int \<Rightarrow> int \<Rightarrow> string \<Rightarrow> string option" where
  "FormatWithCommas_loop inp i j k out =
     (if i < 0 \<or> int (length inp) \<le> i \<or> j < 0 \<or> int (length out) \<le> j then None
      else
        let out = out[nat j := inp ! nat i] in
        if i = 0 then Some out
        else
          let k = k + 1 in
          if k = 3 then
            (let j = j - 1; k = 0 in
             if j < 0 \<or> int (length out) \<le> j then None
             else FormatWithCommas_loop inp (i - 1) (j - 1) k (out[nat j := CHR '','']))
          else FormatWithCommas_loop inp (i - 1) (j - 1) k out)"
  by pat_completeness auto
termination
  by (relation "measure (\<lambda>(inp, i, j, k, out). nat i)") auto

declare FormatWithCommas_loop.simps [simp del]

definition FormatWithCommas :: "int64 \<Rightarrow> string option" where
  "FormatWithCommas n =
     (let inp = FormatInt (sint n);
          numOfDigits = int (length inp);
          numOfDigits = (if sint n < 0 then numOfDigits - 1 else numOfDigits);
          numOfCommas = quo (numOfDigits - 1) 3;
          len_out = int (length inp) + numOfCommas
      in if len_out < 0 then None
         else
           let out = replicate (nat len_out) (CHR 0x00) in
           if sint n < 0 then
             (if length inp < 1 \<or> length out < 1 then None
              else
                let inp = drop 1 inp; out = out[0 := CHR ''-'']
                in FormatWithCommas_loop inp (int (length inp) - 1) (int (length out) - 1) 0 out)
           else FormatWithCommas_loop inp (int (length inp) - 1) (int (length out) - 1) 0 out)"

text \<open>
  The grouping the specification describes, written independently of the loop: reading
  the digits from the right, a comma follows every third digit that has a digit to its
  left; a negative number has its minus sign in front of the grouped digits.
\<close>

fun group_rev :: "string \<Rightarrow> string" where
  "group_rev (a # b # c # d # ds) = a # b # c # CHR '','' # group_rev (d # ds)"
| "group_rev ds = ds"

definition grouped :: "string \<Rightarrow> string" where
  "grouped ds = rev (group_rev (rev ds))"

definition spec_FormatWithCommas :: "int \<Rightarrow> string" where
  "spec_FormatWithCommas n = (if n < 0 then ''-'' else []) @ grouped (digits10 (nat \<bar>n\<bar>))"

text \<open>The characters the loop stores, in the order it stores them, when it starts
  with counter \<open>k\<close> on the digits read from the right.\<close>

fun grp :: "int \<Rightarrow> string \<Rightarrow> string" where
  "grp k [] = []"
| "grp k [d] = [d]"
| "grp k (d # d' # ds) =
     (if k + 1 = 3 then d # CHR '','' # grp 0 (d' # ds) else d # grp (k + 1) (d' # ds))"

subsection \<open>Go's time package: zones and the calendar\<close>

text \<open>
  \<open>createDate\<close> is one call of \<^verbatim>\<open>time.ParseInLocation\<close>, and what it returns is read
  back through \<^verbatim>\<open>Year\<close>, \<^verbatim>\<open>Month\<close>, \<^verbatim>\<open>Day\<close>, \<^verbatim>\<open>Hour\<close>, \<^verbatim>\<open>Minute\<close> and
  \<^verbatim>\<open>Second\<close>. These functions of Go's standard library are modelled here after its
  sources (\<^verbatim>\<open>time/time.go\<close>, \<^verbatim>\<open>time/zoneinfo.go\<close>, \<^verbatim>\<open>time/format.go\<close>). Seconds are
  counted from an absolute epoch (January 1 of the year \<open>absoluteZeroYear\<close>) so that
  no intermediate value is negative. Go computes in 64-bit integers that wrap around; the
  model uses unbounded integers, which give the same results: for the four-digit years
  that a timestamp can name, the seconds since the absolute epoch fit an unsigned and the
  Unix seconds a signed 64-bit integer (lemma \<open>Date_within_64_bits\<close> below).
\<close>

definition secondsPerMinute :: int where "secondsPerMinute = 60"
definition secondsPerHour :: int where "secondsPerHour = 60 * secondsPerMinute"
definition secondsPerDay :: int where "secondsPerDay = 24 * secondsPerHour"
definition daysPer400Years :: int where "daysPer400Years = 365 * 400 + 97"
definition daysPer100Years :: int where "daysPer100Years = 365 * 100 + 24"
definition daysPer4Years :: int where "daysPer4Years = 365 * 4 + 1"
definition absoluteZeroYear :: int where "absoluteZeroYear = - 292277022399"
definition absoluteToInternal :: int where "absoluteToInternal = - 9223371966579724800"
definition internalToAbsolute :: int where "internalToAbsolute = - absoluteToInternal"
definition unixToInternal :: int where
  "unixToInternal = (1969 * 365 + 1969 div 4 - 1969 div 100 + 1969 div 400) * secondsPerDay"
definition internalToUnix :: int where "internalToUnix = - unixToInternal"

text \<open>The bounds \<^verbatim>\<open>alpha\<close> and \<^verbatim>\<open>omega\<close> of the time line of a location.\<close>

definition alpha :: int where "alpha = - (2 ^ 63)"
definition omega :: int where "omega = 2 ^ 63 - 1"

text \<open>
  \<^verbatim>\<open>Location.lookup\<close>: the offset in force at the Unix time \<open>sec\<close> and the interval
  \<open>[start, end)\<close> in which it is in force. Go finds the last transition at or before
  \<open>sec\<close> by binary search; the scan below finds the same one in an ascending table.
\<close>

fun lookup_tx :: "int \<Rightarrow> int \<Rightarrow> (int \<times> int) list \<Rightarrow> int \<Rightarrow> int \<times> int \<times> int" where
  "lookup_tx offset start [] sec = (offset, start, omega)"
| "lookup_tx offset start ((when, offset') # tx) sec =
     (if sec < when then (offset, start, when) else lookup_tx offset' when tx sec)"

definition lookup :: "Location \<Rightarrow> int \<Rightarrow> int \<times> int \<times> int" where
  "lookup l sec = lookup_tx (zoneFirst l) alpha (zoneTrans l) sec"

definition isLeap :: "int \<Rightarrow> bool" where
  "isLeap year = (year mod 4 = 0 \<and> (year mod 100 \<noteq> 0 \<or> year mod 400 = 0))"

definition daysBefore :: "int list" where
  "daysBefore = [0, 31, 59, 90, 120, 151, 181, 212, 243, 273, 304, 334, 365]"

definition daysIn :: "int \<Rightarrow> int \<Rightarrow> int" where
  "daysIn m year =
     (if m = 2 \<and> isLeap year then 29 else daysBefore ! nat m - daysBefore ! nat (m - 1))"

definition daysSinceEpoch :: "int \<Rightarrow> int" where
  "daysSinceEpoch year =
     (let y = year - absoluteZeroYear;
          n = y div 400;
          y = y - 400 * n;
          d = daysPer400Years * n;
          n = y div 100;
          y = y - 100 * n;
          d = d + daysPer100Years * n;
          n = y div 4;
          y = y - 4 * n;
          d = d + daysPer4Years * n;
          n = y;
          d = d + 365 * n
      in d)"

definition norm :: "int \<Rightarrow> int \<Rightarrow> int \<Rightarrow> int \<times> int" where
  "norm hi lo base =
     (let (hi, lo) = (if lo < 0 then
                        (let n = (- lo - 1) div base + 1 in (hi - n, lo + n * base))
                      else (hi, lo));
          (hi, lo) = (if lo \<ge> base then
                        (let n = lo div base in (hi + n, lo - n * base))
                      else (hi, lo))
      in (hi, lo))"

text \<open>\<^verbatim>\<open>time.Date\<close>. When the offset found for the wall-clock reading is not the one in
  force at the instant it leads to, the offset at that instant is used instead.\<close>

definition Date :: "int \<Rightarrow> int \<Rightarrow> int \<Rightarrow> int \<Rightarrow> int \<Rightarrow> int \<Rightarrow> int \<Rightarrow> Location \<Rightarrow> Time" where
  "Date year month day hour minute sec nsec l =
     (let m = month - 1;
          (year, m) = norm year m 12;
          month = m + 1;
          (sec, nsec) = norm sec nsec 1000000000;
          (minute, sec) = norm minute sec 60;
          (hour, minute) = norm hour minute 60;
          (day, hour) = norm day hour 24;
          d = daysSinceEpoch year;
          d = d + daysBefore ! nat (month - 1);
          d = (if isLeap year \<and> month \<ge> 3 then d + 1 else d);
          d = d + (day - 1);
          a = d * secondsPerDay;
          a = a + (hour * secondsPerHour + minute * secondsPerMinute + sec);
          unix = a + (absoluteToInternal + internalToUnix);
          (offset, start, zend) = lookup l unix;
          unix = (if offset \<noteq> 0 then
                    (let utc = unix - offset;
                         offset = (if utc < start \<or> utc \<ge> zend then fst (lookup l utc)
                                   else offset)
                     in unix - offset)
                  else unix)
      in \<lparr>t_unix = unix, t_nsec = nsec, t_loc = l\<rparr>)"

text \<open>\<^verbatim>\<open>Time.abs\<close>: the seconds since the absolute epoch of the wall clock at \<open>t\<close>.\<close>

definition absSec :: "Time \<Rightarrow> int" where
  "absSec t =
     (let sec = t_unix t;
          (offset, start, zend) = lookup (t_loc t) sec;
          sec = sec + offset
      in sec + (unixToInternal + internalToAbsolute))"

text \<open>\<^verbatim>\<open>absDate\<close>: year, month, day and day of the year (\<open>n >> 2\<close> is \<open>n div 4\<close>).\<close>

definition absDate :: "int \<Rightarrow> int \<times> int \<times> int \<times> int" where
  "absDate a =
     (let d = a div secondsPerDay;
          n = d div daysPer400Years;
          y = 400 * n;
          d = d - daysPer400Years * n;
          n = d div daysPer100Years;
          n = n - n div 4;
          y = y + 100 * n;
          d = d - daysPer100Years * n;
          n = d div daysPer4Years;
          y = y + 4 * n;
          d = d - daysPer4Years * n;
          n = d div 365;
          n = n - n div 4;
          y = y + n;
          d = d - 365 * n;
          year = y + absoluteZeroYear;
          yday = d;
          day = yday
      in if isLeap year \<and> day = 31 + 29 - 1 then (year, 2, 29, yday)
         else
           (let day = (if isLeap year \<and> day > 31 + 29 - 1 then day - 1 else day);
                month = day div 31;
                mend = daysBefore ! nat (month + 1);
                (month, mbegin) = (if day \<ge> mend then (month + 1, mend)
                                   else (month, daysBefore ! nat month));
                month = month + 1;
                day = day - mbegin + 1
            in (year, month, day, yday)))"

definition Year :: "Time \<Rightarrow> int" where
  "Year t = (case absDate (absSec t) of (year, month, day, yday) \<Rightarrow> year)"

definition Month :: "Time \<Rightarrow> int" where
  "Month t = (case absDate (absSec t) of (year, month, day, yday) \<Rightarrow> month)"

definition Day :: "Time \<Rightarrow> int" where
  "Day t = (case absDate (absSec t) of (year, month, day, yday) \<Rightarrow> day)"

definition Hour :: "Time \<Rightarrow> int" where
  "Hour t = (absSec t mod secondsPerDay) div secondsPerHour"

definition Minute :: "Time \<Rightarrow> int" where
  "Minute t = (absSec t mod secondsPerHour) div secondsPerMinute"

definition Second :: "Time \<Rightarrow> int" where
  "Second t = absSec t mod secondsPerMinute"

subsection \<open>Go's time package: parsing with the layout of createDate\<close>

datatype ParseError = errBad | errRange string | errExtraText string | errDayOutOfRange

text \<open>The bytes \<^verbatim>\<open>'0'\<close> to \<^verbatim>\<open>'9'\<close>.\<close>

definition is09 :: "char \<Rightarrow> bool" where
  "is09 c = ((48::nat) \<le> of_char c \<and> of_char c \<le> (57::nat))"

definition isDigit :: "string \<Rightarrow> nat \<Rightarrow> bool" where
  "isDigit s i = (if length s \<le> i then False else is09 (s ! i))"

definition digitVal :: "char \<Rightarrow> int" where
  "digitVal c = int (of_char c) - 48"

text \<open>\<^verbatim>\<open>getnum\<close>: one or two digits; exactly two when \<open>fixed\<close>. \<open>None\<close> is \<^verbatim>\<open>errBad\<close>.\<close>

definition getnum :: "string \<Rightarrow> bool \<Rightarrow> (int \<times> string) option" where
  "getnum s fixed =
     (if \<not> isDigit s 0 then None
      else if \<not> isDigit s 1 then
        (if fixed then None else Some (digitVal (s ! 0), drop 1 s))
      else Some (digitVal (s ! 0) * 10 + digitVal (s ! 1), drop 2 s))"

text \<open>\<^verbatim>\<open>leadingInt\<close> and \<^verbatim>\<open>atoi\<close>; \<open>None\<close> is the error.\<close>

fun leadingInt :: "int \<Rightarrow> string \<Rightarrow> (int \<times> string) option" where
  "leadingInt x [] = Some (x, [])"
| "leadingInt x (c # s) =
     (if \<not> is09 c then Some (x, c # s)
      else if x > 2 ^ 63 div 10 then None
      else
        let x = x * 10 + int (of_char c) - 48 in
        if x > 2 ^ 63 then None else leadingInt x s)"

definition atoi :: "string \<Rightarrow> int option" where
  "atoi s =
     (let neg = (length s > 0 \<and> s ! 0 = CHR ''-'');
          s = (if length s > 0 \<and> (s ! 0 = CHR ''-'' \<or> s ! 0 = CHR ''+'') then drop 1 s else s)
      in case leadingInt 0 s of
           None \<Rightarrow> None
         | Some (q, rem) \<Rightarrow>
             if length rem > 0 then None else Some (if neg then - q else q))"

definition commaOrPeriod :: "char \<Rightarrow> bool" where
  "commaOrPeriod c = (c = CHR ''.'' \<or> c = CHR '','')"

text \<open>\<^verbatim>\<open>parseNanoseconds\<close>: the fraction \<open>value[0:nbytes]\<close>, a separator and digits.\<close>

definition parseNanoseconds :: "string \<Rightarrow> nat \<Rightarrow> ParseError + int" where
  "parseNanoseconds value nbytes =
     (if \<not> commaOrPeriod (value ! 0) then Inl errBad
      else
        let (value, nbytes) = (if nbytes > 10 then (take 10 value, 10) else (value, nbytes)) in
        case atoi (drop 1 (take nbytes value)) of
          None \<Rightarrow> Inl errBad
        | Some ns \<Rightarrow>
            if ns < 0 then Inl (errRange ''fractional second'')
            else Inr (ns * 10 ^ (10 - nbytes)))"

text \<open>
  \<^verbatim>\<open>time.ParseInLocation("20060102.150405", value, loc)\<close>. The layout is the sequence of
  chunks \<^verbatim>\<open>stdLongYear\<close>, \<^verbatim>\<open>stdZeroMonth\<close>, \<^verbatim>\<open>stdZeroDay\<close>, the literal period,
  \<^verbatim>\<open>stdHour\<close>, \<^verbatim>\<open>stdZeroMinute\<close>, \<^verbatim>\<open>stdZeroSecond\<close>; each chunk consumes a prefix of
  the value. After the seconds a fraction is accepted although the layout has none.
  Text left over at the end of the layout is an error, and the day is checked against
  the month and year last.
\<close>

definition ParseInLocation :: "string \<Rightarrow> Location \<Rightarrow> ParseError + Time" where
  "ParseInLocation value l =
     (if length value < 4 \<or> \<not> isDigit value 0 then Inl errBad
      else case atoi (take 4 value) of
        None \<Rightarrow> Inl errBad
      | Some year \<Rightarrow>
     (let value = drop 4 value in
      case getnum value True of
        None \<Rightarrow> Inl errBad
      | Some (month, value) \<Rightarrow>
     (if month \<le> 0 \<or> 12 < month then Inl (errRange ''month'')
      else case getnum value True of
        None \<Rightarrow> Inl errBad
      | Some (day, value) \<Rightarrow>
     (if length value = 0 \<or> value ! 0 \<noteq> CHR ''.'' then Inl errBad
      else let value = drop 1 value in
      case getnum value False of
        None \<Rightarrow> Inl errBad
      | Some (hour, value) \<Rightarrow>
     (if hour < 0 \<or> 24 \<le> hour then Inl (errRange ''hour'')
      else case getnum value True of
        None \<Rightarrow> Inl errBad
      | Some (minute, value) \<Rightarrow>
     (if minute < 0 \<or> 60 \<le> minute then Inl (errRange ''minute'')
      else case getnum value True of
        None \<Rightarrow> Inl errBad
      | Some (sec, value) \<Rightarrow>
     (if sec < 0 \<or> 60 \<le> sec then Inl (errRange ''second'')
      else case (if length value \<ge> 2 \<and> commaOrPeriod (value ! 0) \<and> isDigit value 1 then
                   (let n = 2 + length (takeWhile is09 (drop 2 value)) in
                    case parseNanoseconds value n of
                      Inl e \<Rightarrow> Inl e
                    | Inr nsec \<Rightarrow> Inr (nsec, drop n value))
                 else Inr (0, value)) of
        Inl e \<Rightarrow> Inl e
      | Inr (nsec, value) \<Rightarrow>
     (if length value \<noteq> 0 then Inl (errExtraText value)
      else if day < 1 \<or> day > daysIn month year then Inl errDayOutOfRange
      else Inr (Date year month day hour minute sec nsec l)))))))))"

subsection \<open>createDate\<close>

text \<open>\<open>local\<close> is \<^verbatim>\<open>time.Now().Location()\<close>, the local time zone of the process.\<close>

definition createDate :: "Location \<Rightarrow> string \<Rightarrow> ParseError + Time" where
  "createDate local dt = ParseInLocation dt local"

subsection \<open>showFileTimes\<close>

text \<open>The name is printed before \<^verbatim>\<open>os.Stat\<close> is called. A panic of
  \<open>FormatWithCommas\<close> would end the process.\<close>

fun showFileTimes_loop ::
  "'w OS \<Rightarrow> 'w \<Rightarrow> string list \<Rightarrow> event list \<times> int \<Rightarrow> event list \<times> int outcome" where
  "showFileTimes_loop os w [] (tr, count) = (tr, Return count)"
| "showFileTimes_loop os w (file # rest) (tr, count) =
     (let tr = tr @ [OutName file] in
      case os_Stat os w file of
        None \<Rightarrow> showFileTimes_loop os w rest (tr @ [LogLstatError file], count)
      | Some fi_Size \<Rightarrow>
          (let count = count + 1 in
           case FormatWithCommas fi_Size of
             None \<Rightarrow> (tr, Panic)
           | Some s \<Rightarrow>
               (let tr = tr @ [OutSize s];
                    (lg, t) = getFileTimes os w file;
                    tr = tr @ lg;
                    tr = (case t ''b'' of Some b \<Rightarrow> tr @ [OutBtime b] | None \<Rightarrow> tr);
                    tr = (case t ''c'' of Some c \<Rightarrow> tr @ [OutCtime c] | None \<Rightarrow> tr);
                    tr = tr @ [OutMtime (index t ''m'')];
                    tr = tr @ [OutAtime (index t ''a'')];
                    tr = tr @ [OutBlank]
                in showFileTimes_loop os w rest (tr, count))))"

definition showFileTimes :: "'w OS \<Rightarrow> 'w \<Rightarrow> string list \<Rightarrow> event list \<times> int outcome" where
  "showFileTimes os w args =
     (let count = 0;
          (tr, files) = expandGlobs os w args
      in showFileTimes_loop os w files (tr, count))"

subsection \<open>setFileTime\<close>

definition OpAccess :: string where "OpAccess = ''a''"
definition OpModify :: string where "OpModify = ''m''"
definition OpBoth :: string where "OpBoth = ''b''"

text \<open>
  The loop over the resolved files. \<open>call\<close> is the pair handed to \<^verbatim>\<open>os.Chtimes\<close> by
  the branch of the \<^verbatim>\<open>if\<close> chain that \<open>op\<close> selects, \<open>None\<close> in its last branch
  (\<^verbatim>\<open>log.Fatalf\<close>).
\<close>

fun setFileTime_loop ::
  "'w OS \<Rightarrow> Time \<Rightarrow> string \<Rightarrow> string list \<Rightarrow> 'w \<times> event list \<Rightarrow> ('w \<times> event list) \<times> unit outcome"
  where
  "setFileTime_loop os newTime op [] (w, tr) = ((w, tr), Return ())"
| "setFileTime_loop os newTime op (file # rest) (w, tr) =
     (let (lg, currentTimes) = getFileTimes os w file;
          tr = tr @ lg;
          call = (if OpModify = op then Some (index currentTimes ''a'', newTime)
                  else if OpAccess = op then Some (newTime, index currentTimes ''m'')
                  else if OpBoth = op then Some (newTime, newTime)
                  else None)
      in case call of
           None \<Rightarrow> ((w, tr @ [LogFatal ''Invalid op'']), Exit 1)
         | Some (atime, mtime) \<Rightarrow>
             (let (w, ok) = os_Chtimes os w file atime mtime;
                  tr = tr @ [CallChtimes file atime mtime]
              in if \<not> ok then
                   setFileTime_loop os newTime op rest (w, tr @ [LogChtimesError file])
                 else
                   (case showFileTimes os w [file] of
                      (shown, Return count) \<Rightarrow>
                        setFileTime_loop os newTime op rest (w, tr @ shown)
                    | (shown, Exit status) \<Rightarrow> ((w, tr @ shown), Exit status)
                    | (shown, Panic) \<Rightarrow> ((w, tr @ shown), Panic))))"

definition setFileTime ::
  "'w OS \<Rightarrow> Location \<Rightarrow> 'w \<Rightarrow> string list \<Rightarrow> string \<Rightarrow> string \<Rightarrow> ('w \<times> event list) \<times> unit outcome"
  where
  "setFileTime os local w args dt op =
     (case createDate local dt of
        Inl err \<Rightarrow> ((w, [LogFatal ''Error parsing date'']), Exit 1)
      | Inr newTime \<Rightarrow>
          (let (tr, files) = expandGlobs os w args
           in setFileTime_loop os newTime op files (w, tr)))"

text \<open>The world in which the loop finds itself after the files \<open>files\<close>.\<close>

definition world_after :: "'w OS \<Rightarrow> Time \<Rightarrow> string \<Rightarrow> string list \<Rightarrow> 'w \<Rightarrow> 'w" where
  "world_after os newTime op files w = fst (fst (setFileTime_loop os newTime op files (w, [])))"

subsection \<open>main\<close>

text \<open>The command line after \<^verbatim>\<open>flag.Parse\<close>.\<close>

record flags =
  argsVersion :: bool
  argsAccess :: string
  argsModify :: string
  argsBoth :: string
  flag_Args :: "string list"

text \<open>The regular expression \<^verbatim>\<open>^\d{8}\.\d{6}$\<close> of \<open>main\<close>: eight digits, a period and
  six digits make up the whole string.\<close>

definition validDT_MatchString :: "string \<Rightarrow> bool" where
  "validDT_MatchString s =
     (length s = 15 \<and> list_all is09 (take 8 s) \<and> s ! 8 = CHR ''.'' \<and> list_all is09 (drop 9 s))"

text \<open>\<open>main\<close> returns the world, the events and the exit status of the process; a
  run-time panic exits with status 2.\<close>

definition main :: "'w OS \<Rightarrow> Location \<Rightarrow> 'w \<Rightarrow> flags \<Rightarrow> ('w \<times> event list) \<times> int" where
  "main os local w fl =
     (if argsVersion fl then ((w, [ErrVersion]), 0)
      else
        let args = flag_Args fl in
        if 0 = length args then ((w, [ErrUsage]), 1)
        else
          let wantChange = (0::int);
              op = [];
              newTime = [];
              (wantChange, op, newTime) =
                (if length (argsAccess fl) > 0 then (wantChange + 1, OpAccess, argsAccess fl)
                 else (wantChange, op, newTime));
              (wantChange, op, newTime) =
                (if length (argsModify fl) > 0 then (wantChange + 1, OpModify, argsModify fl)
                 else (wantChange, op, newTime));
              (wantChange, op, newTime) =
                (if length (argsBoth fl) > 0 then (wantChange + 1, OpBoth, argsBoth fl)
                 else (wantChange, op, newTime))
          in
            if wantChange > 1 then ((w, [LogFatal ''mutually exclusive'']), 1)
            else if wantChange > 0 then
              (if validDT_MatchString newTime = False then
                 ((w, [LogFatal ''invalid time stamp'']), 1)
               else
                 (case setFileTime os local w args newTime op of
                    (st, Return u) \<Rightarrow> (st, 0)
                  | (st, Exit status) \<Rightarrow> (st, status)
                  | (st, Panic) \<Rightarrow> (st, 2)))
            else
              (case showFileTimes os w args of
                 (tr, Return count) \<Rightarrow>
                   if count = 0 then ((w, tr @ [LogFatal ''did not match any files'']), 1)
                   else ((w, tr), 0)
               | (tr, Exit status) \<Rightarrow> ((w, tr), status)
               | (tr, Panic) \<Rightarrow> ((w, tr), 2)))"

subsection \<open>The timestamp format, as the specification describes it\<close>

text \<open>
  The components of a text \<^verbatim>\<open>YYYYMMDD.HHMMSS\<close>, read off its positions, and what makes
  them a date of the Gregorian calendar and a time of day. These definitions follow the
  specification; they do not use the parser.
\<close>

definition decimal :: "string \<Rightarrow> int" where
  "decimal ds = foldl (\<lambda>n c. 10 * n + digitVal c) 0 ds"

definition ts_year :: "string \<Rightarrow> int" where "ts_year s = decimal (take 4 s)"
definition ts_month :: "string \<Rightarrow> int" where "ts_month s = decimal (take 2 (drop 4 s))"
definition ts_day :: "string \<Rightarrow> int" where "ts_day s = decimal (take 2 (drop 6 s))"
definition ts_hour :: "string \<Rightarrow> int" where "ts_hour s = decimal (take 2 (drop 9 s))"
definition ts_minute :: "string \<Rightarrow> int" where "ts_minute s = decimal (take 2 (drop 11 s))"
definition ts_second :: "string \<Rightarrow> int" where "ts_second s = decimal (take 2 (drop 13 s))"

definition leap_year :: "int \<Rightarrow> bool" where
  "leap_year y = (y mod 4 = 0 \<and> y mod 100 \<noteq> 0 \<or> y mod 400 = 0)"

definition days_in_month :: "int \<Rightarrow> int \<Rightarrow> int" where
  "days_in_month y m =
     (if m = 2 then (if leap_year y then 29 else 28)
      else if m = 4 \<or> m = 6 \<or> m = 9 \<or> m = 11 then 30
      else 31)"

definition valid_calendar :: "string \<Rightarrow> bool" where
  "valid_calendar s =
     (1 \<le> ts_month s \<and> ts_month s \<le> 12
      \<and> 1 \<le> ts_day s \<and> ts_day s \<le> days_in_month (ts_year s) (ts_month s)
      \<and> ts_hour s \<le> 23 \<and> ts_minute s \<le> 59 \<and> ts_second s \<le> 59)"

text \<open>A fraction of a second after the seconds: a period or a comma, then digits.\<close>

definition fraction_suffix :: "string \<Rightarrow> bool" where
  "fraction_suffix f = (2 \<le> length f \<and> commaOrPeriod (f ! 0) \<and> list_all is09 (drop 1 f))"

text \<open>
  The offset that \<^verbatim>\<open>time.Date\<close> subtracts from a wall-clock reading taken as a Unix
  time, and whether that offset is in force at the instant it leads to. It is not when a
  transition of the zone skips the wall-clock reading.
\<close>

definition selected_offset :: "Location \<Rightarrow> int \<Rightarrow> int" where
  "selected_offset l wall =
     (let (offset, start, zend) = lookup l wall in
      if offset \<noteq> 0 then
        (let utc = wall - offset in
         if utc < start \<or> utc \<ge> zend then fst (lookup l utc) else offset)
      else offset)"

definition offset_in_force :: "Location \<Rightarrow> int \<Rightarrow> bool" where
  "offset_in_force l wall =
     (fst (lookup l (wall - selected_offset l wall)) = selected_offset l wall)"

text \<open>
  The offset of the location does not change between a wall-clock reading taken as a
  Unix time and the instant which that offset makes of it: no transition of the zone is
  that close. A location without transitions is steady everywhere.
\<close>

definition steady :: "Location \<Rightarrow> int \<Rightarrow> bool" where
  "steady l wall = (fst (lookup l (wall - fst (lookup l wall))) = fst (lookup l wall))"

subsection \<open>Reading the events\<close>

text \<open>The calls of \<^verbatim>\<open>os.Chtimes\<close> among the events, in order.\<close>

fun chtimes_calls :: "event list \<Rightarrow> (string \<times> Time \<times> Time) list" where
  "chtimes_calls [] = []"
| "chtimes_calls (CallChtimes file atime mtime # es) = (file, atime, mtime) # chtimes_calls es"
| "chtimes_calls (e # es) = chtimes_calls es"

subsection \<open>The report of one target\<close>

text \<open>
  What is emitted for one resolved target, in order. The name comes first. When
  \<^verbatim>\<open>os.Stat\<close> fails, the log line follows and nothing else. When it succeeds: the size
  with its digits grouped, the birth time and the change time, each only when the file
  system has it, the modification time, the access time and an empty line. When
  \<^verbatim>\<open>times.Stat\<close> fails although \<^verbatim>\<open>os.Stat\<close> has succeeded, \<open>getFileTimes\<close> logs it and
  the zero instant is printed for both times.
\<close>

definition report :: "'w OS \<Rightarrow> 'w \<Rightarrow> string \<Rightarrow> event list" where
  "report os w file =
     OutName file #
     (case os_Stat os w file of
        None \<Rightarrow> [LogLstatError file]
      | Some fi_Size \<Rightarrow>
          OutSize (spec_FormatWithCommas (sint fi_Size)) #
          (case times_Stat os w file of
             None \<Rightarrow> [LogGetFileTimesError file, OutMtime zeroTime, OutAtime zeroTime, OutBlank]
           | Some t \<Rightarrow>
               (if HasBirthTime t then [OutBtime (BirthTime t)] else [])
               @ (if HasChangeTime t then [OutCtime (ChangeTime t)] else [])
               @ [OutMtime (ModTime t), OutAtime (AccessTime t), OutBlank]))"

subsection \<open>A file system for examples\<close>

text \<open>
  A world given by three tables. \<^verbatim>\<open>os.Chtimes\<close> stores the two instants for a path
  whose times can be read and fails for any other path.
\<close>

record world =
  w_glob :: "string \<Rightarrow> string list option"
  w_stat :: "string \<Rightarrow> int64 option"
  w_times :: "string \<Rightarrow> Timespec option"

definition table_OS :: "world OS" where
  "table_OS =
     \<lparr>os_Glob = w_glob, os_Stat = w_stat, times_Stat = w_times,
      os_Chtimes = (\<lambda>w file atime mtime.
        case w_times w file of
          None \<Rightarrow> (w, False)
        | Some ts \<Rightarrow>
            (w\<lparr>w_times := (w_times w)(file \<mapsto> ts\<lparr>AccessTime := atime, ModTime := mtime\<rparr>)\<rparr>,
             True))\<rparr>"

definition t1 :: Time where
  "t1 = \<lparr>t_unix = 1617028225, t_nsec = 784342700, t_loc = UTC\<rparr>"

definition t2 :: Time where
  "t2 = \<lparr>t_unix = 1617028288, t_nsec = 830322800, t_loc = UTC\<rparr>"

definition demo_times :: Timespec where
  "demo_times =
     \<lparr>AccessTime = t2, ModTime = t1, HasChangeTime = True, ChangeTime = t2,
      HasBirthTime = False, BirthTime = zeroTime\<rparr>"

text \<open>
  Two regular files, one of them with glob metacharacters in its name, and a dangling
  symbolic link: \<^verbatim>\<open>filepath.Glob\<close> lists the link, \<^verbatim>\<open>os.Stat\<close> and \<^verbatim>\<open>times.Stat\<close>
  follow it and fail.
\<close>

definition demo_world :: world where
  "demo_world =
     \<lparr>w_glob = (\<lambda>p. if p = ''['' then None
                     else if p = ''*.txt'' then Some [''a.txt'', ''b[1].txt'']
                     else if p = ''a.txt'' then Some [''a.txt'']
                     else if p = ''link'' then Some [''link'']
                     else Some []),
      w_stat = (\<lambda>f. if f = ''a.txt'' then Some 84
                     else if f = ''b[1].txt'' then Some 1234567
                     else None),
      w_times = (\<lambda>f. if f = ''a.txt'' \<or> f = ''b[1].txt'' then Some demo_times else None)\<rparr>"

text \<open>A location with the two transitions of the year 2021 in New York.\<close>

definition NewYork :: Location where
  "NewYork = Location (- 18000) [(1615705200, - 14400), (1636264800, - 18000)]"

section \<open>Theorems\<close>

subsection \<open>expandGlobs\<close>

lemma expandGlobs_loop_acc:
  "expandGlobs_loop os w args (tr, acc) =
     (tr @ fst (expandGlobs_loop os w args ([], [])), acc @ snd (expandGlobs_loop os w args ([], [])))"
proof (induction args arbitrary: tr acc)
  case Nil
  show ?case by simp
next
  case (Cons glob rest)
  note IH = Cons.IH
  show ?case
  proof (cases "os_Glob os w glob")
    case None
    then show ?thesis
      using IH [of "tr @ [LogGlobError glob]" acc] IH [of "[LogGlobError glob]" "[]"]
      by simp
  next
    case (Some globbed)
    show ?thesis
    proof (cases "length globbed > 0")
      case True
      then show ?thesis
        using Some IH [of tr "acc @ globbed"] IH [of "[]" globbed] by simp
    next
      case False
      then show ?thesis
        using Some IH [of tr "acc @ [glob]"] IH [of "[]" "[glob]"] IH [of tr acc]
        by (cases "os_Stat os w glob") simp_all
    qed
  qed
qed

lemma snd_expandGlobs_loop:
  "snd (expandGlobs_loop os w args (tr, acc)) = acc @ snd (expandGlobs_loop os w args ([], []))"
  using expandGlobs_loop_acc [of os w args tr acc] by simp

lemma expandGlobs_Cons:
  "snd (expandGlobs os w (glob # rest)) =
     (case os_Glob os w glob of
        None \<Rightarrow> []
      | Some globbed \<Rightarrow>
          if globbed \<noteq> [] then globbed
          else (case os_Stat os w glob of Some _ \<Rightarrow> [glob] | None \<Rightarrow> []))
     @ snd (expandGlobs os w rest)"
proof (cases "os_Glob os w glob")
  case None
  then show ?thesis
    using snd_expandGlobs_loop [of os w rest "[LogGlobError glob]" "[]"]
    by (simp add: expandGlobs_def)
next
  case (Some globbed)
  show ?thesis
  proof (cases "globbed = []")
    case True
    then show ?thesis
      using Some snd_expandGlobs_loop [of os w rest "[]" "[glob]"]
      by (cases "os_Stat os w glob") (simp_all add: expandGlobs_def)
  next
    case False
    then show ?thesis
      using Some snd_expandGlobs_loop [of os w rest "[]" globbed]
      by (simp add: expandGlobs_def)
  qed
qed

lemma expandGlobs_append:
  "snd (expandGlobs os w (xs @ ys)) = snd (expandGlobs os w xs) @ snd (expandGlobs os w ys)"
proof (induction xs)
  case Nil
  show ?case by (simp add: expandGlobs_def)
next
  case (Cons x xs)
  then show ?case by (simp add: expandGlobs_Cons)
qed

text \<open>
  C6. A pattern whose glob expansion succeeds with zero matches contributes to the result
  of \<open>expandGlobs\<close> exactly the pattern itself when \<^verbatim>\<open>os.Stat\<close> finds an entry at that
  path, and nothing otherwise; the contributions of the patterns before and after it are
  untouched. In particular a pattern with glob metacharacters that matches nothing but
  names an existing file resolves, alone, to that one file.
\<close>

theorem expandGlobs_literal_fallback:
  "os_Glob os w glob = Some [] \<Longrightarrow>
     snd (expandGlobs os w (before @ glob # after)) =
       snd (expandGlobs os w before)
       @ (if os_Stat os w glob \<noteq> None then [glob] else [])
       @ snd (expandGlobs os w after)
     \<and> (os_Stat os w glob \<noteq> None \<longrightarrow> snd (expandGlobs os w [glob]) = [glob])
     \<and> (os_Stat os w glob = None \<longrightarrow> snd (expandGlobs os w [glob]) = [])"
  by (auto simp: expandGlobs_append expandGlobs_Cons)
     (simp_all add: expandGlobs_def)

theorem expandGlobs_literal_fallback_witness:
  "os_Glob table_OS demo_world ''b[1].txt'' = Some []
   \<and> snd (expandGlobs table_OS demo_world ([''a.txt''] @ ''b[1].txt'' # [''c.txt''])) =
       [''a.txt'', ''b[1].txt'']
   \<and> snd (expandGlobs table_OS demo_world [''b[1].txt'']) = [''b[1].txt'']"
proof -
  have g: "os_Glob table_OS demo_world ''b[1].txt'' = Some []"
    by (simp add: table_OS_def demo_world_def)
  have s: "os_Stat table_OS demo_world ''b[1].txt'' \<noteq> None"
    by (simp add: table_OS_def demo_world_def)
  have a: "snd (expandGlobs table_OS demo_world [''a.txt'']) = [''a.txt'']"
    by (simp add: expandGlobs_def table_OS_def demo_world_def)
  have c: "snd (expandGlobs table_OS demo_world [''c.txt'']) = []"
    by (simp add: expandGlobs_def table_OS_def demo_world_def)
  show ?thesis
    using expandGlobs_literal_fallback [OF g, of "[''a.txt'']" "[''c.txt'']"] g s a c
    by simp
qed

subsection \<open>FormatWithCommas\<close>

lemma grp_0: "grp 0 ds = group_rev ds"
  by (induction ds rule: group_rev.induct) auto

lemma length_group_rev: "length (group_rev ds) = length ds + (length ds - 1) div 3"
  by (induction ds rule: group_rev.induct) auto

lemma length_digits10: "0 < length (digits10 n)"
  by (subst digits10.simps) simp

lemma rev_take_Suc: "n < length xs \<Longrightarrow> rev (take (Suc n) xs) = xs ! n # rev (take n xs)"
  by (simp add: take_Suc_conv_app_nth)

lemma snoc2: "length xs = Suc (Suc n) \<Longrightarrow> \<exists>ys x y. xs = ys @ [x, y] \<and> length ys = n"
proof -
  assume l: "length xs = Suc (Suc n)"
  then have "xs = take n xs @ [xs ! n, xs ! Suc n]"
    by (metis Cons_nth_drop_Suc append_take_drop_id drop_all le_refl lessI less_SucI)
  then show ?thesis using l by (metis length_take min.absorb2 le_add2 plus_1_eq_Suc le_SucI le_refl add_2_eq_Suc)
qed

lemma snoc1: "length xs = Suc n \<Longrightarrow> \<exists>ys x. xs = ys @ [x] \<and> length ys = n"
  by (metis length_Suc_conv_rev)

lemma loop_writes:
  "n < length inp \<Longrightarrow> length junk = length (grp k (rev (take (Suc n) inp))) \<Longrightarrow>
   FormatWithCommas_loop inp (int n) (int (length pre + length junk) - 1) k (pre @ junk @ post) =
     Some (pre @ rev (grp k (rev (take (Suc n) inp))) @ post)"
proof (induction n arbitrary: k junk post)
  case 0
  then obtain x xs where inp: "inp = x # xs" by (cases inp) auto
  from 0 obtain y where junk: "junk = [y]" by (cases junk) (auto simp: inp)
  show ?case
    by (subst FormatWithCommas_loop.simps) (simp add: inp junk list_update_append)
next
  case (Suc n)
  let ?d = "inp ! Suc n"
  have n: "n < length inp" using Suc.prems by simp
  obtain d' ds where tl: "rev (take (Suc n) inp) = d' # ds"
    using n by (simp add: rev_take_Suc)
  have W: "rev (take (Suc (Suc n)) inp) = ?d # d' # ds"
    using Suc.prems(1) tl by (simp add: rev_take_Suc)
  show ?case
  proof (cases "k + 1 = 3")
    case True
    let ?W' = "grp 0 (d' # ds)"
    have "length junk = Suc (Suc (length ?W'))" using Suc.prems(2) True by (simp add: W)
    then obtain junk' x y where junk: "junk = junk' @ [x, y]" and l: "length junk' = length ?W'"
      using snoc2 by blast
    have ne: "0 < length junk'" unfolding l by (cases ds) auto
    have IH: "FormatWithCommas_loop inp (int n) (int (length pre + length junk') - 1) 0
                (pre @ junk' @ (CHR '','' # ?d # post)) =
              Some (pre @ rev ?W' @ (CHR '','' # ?d # post))"
      using Suc.IH [of junk' 0 "CHR '','' # ?d # post"] n l by (simp add: tl)
    have step: "FormatWithCommas_loop inp (int (Suc n)) (int (length pre + length junk) - 1) k
                  (pre @ junk @ post) =
                FormatWithCommas_loop inp (int n) (int (length pre + length junk') - 1) 0
                  (pre @ junk' @ (CHR '','' # ?d # post))"
      using Suc.prems(1) True ne
      by (subst FormatWithCommas_loop.simps)
         (simp add: junk Let_def list_update_append nat_add_distrib nth_append)
    show ?thesis
      unfolding step IH using True by (simp add: W)
  next
    case False
    let ?W' = "grp (k + 1) (d' # ds)"
    have "length junk = Suc (length ?W')" using Suc.prems(2) False by (simp add: W)
    then obtain junk' x where junk: "junk = junk' @ [x]" and l: "length junk' = length ?W'"
      using snoc1 by blast
    have ne: "0 < length junk'" unfolding l by (cases ds) auto
    have IH: "FormatWithCommas_loop inp (int n) (int (length pre + length junk') - 1) (k + 1)
                (pre @ junk' @ (?d # post)) =
              Some (pre @ rev ?W' @ (?d # post))"
      using Suc.IH [of junk' "k + 1" "?d # post"] n l by (simp add: tl)
    have step: "FormatWithCommas_loop inp (int (Suc n)) (int (length pre + length junk) - 1) k
                  (pre @ junk @ post) =
                FormatWithCommas_loop inp (int n) (int (length pre + length junk') - 1) (k + 1)
                  (pre @ junk' @ (?d # post))"
      using Suc.prems(1) False ne
      by (subst FormatWithCommas_loop.simps)
         (simp add: junk Let_def list_update_append nat_add_distrib nth_append)
    show ?thesis
      unfolding step IH using False by (simp add: W)
  qed
qed

lemma quo_nonneg: "0 \<le> a \<Longrightarrow> 0 < b \<Longrightarrow> quo a b = a div b"
  by (cases "a = 0") (simp_all add: quo_def)

lemma loop_top:
  assumes "ds \<noteq> []"
  shows "FormatWithCommas_loop ds (int (length ds) - 1)
           (int (length (pre @ replicate (length ds + (length ds - 1) div 3) c)) - 1) 0
           (pre @ replicate (length ds + (length ds - 1) div 3) c) =
         Some (pre @ grouped ds)"
proof -
  obtain n where n: "length ds = Suc n" using assms by (cases ds) auto
  let ?junk = "replicate (length ds + (length ds - 1) div 3) c"
  have W: "grp 0 (rev (take (Suc n) ds)) = group_rev (rev ds)"
    using n by (simp add: grp_0)
  have l: "length ?junk = length (grp 0 (rev (take (Suc n) ds)))"
    unfolding W by (simp add: length_group_rev)
  show ?thesis
    using loop_writes [of n ds ?junk 0 pre "[]"] l n
    by (simp add: grp_0 grouped_def length_group_rev)
qed

lemma FormatWithCommas_spec:
  "FormatWithCommas n = Some (spec_FormatWithCommas (sint n))"
proof (cases "sint n < 0")
  case False
  let ?ds = "digits10 (nat (sint n))"
  have ne: "?ds \<noteq> []" using length_digits10 [of "nat (sint n)"] by auto
  have q: "quo (int (length ?ds) - 1) 3 = int ((length ?ds - 1) div 3)"
    using ne by (subst quo_nonneg) (auto simp: Suc_le_eq zdiv_int of_nat_diff)
  show ?thesis
    using False loop_top [OF ne, of "[]" "CHR 0x00"]
    by (simp add: FormatWithCommas_def FormatInt_def spec_FormatWithCommas_def Let_def q
                  nat_add_distrib)
next
  case True
  let ?ds = "digits10 (nat (- sint n))"
  have ne: "?ds \<noteq> []" using length_digits10 [of "nat (- sint n)"] by auto
  have q: "quo (int (length ?ds) - 1) 3 = int ((length ?ds - 1) div 3)"
    using ne by (subst quo_nonneg) (auto simp: Suc_le_eq zdiv_int of_nat_diff)
  have a: "nat \<bar>sint n\<bar> = nat (- sint n)" using True by simp
  have r: "\<And>m c x. (replicate (Suc m) c)[0 := x] = [x] @ replicate m (c::char)"
    by simp
  show ?thesis
    using True loop_top [OF ne, of "[CHR ''-'']" "CHR 0x00"]
    by (simp add: FormatWithCommas_def FormatInt_def spec_FormatWithCommas_def Let_def q a
                  nat_add_distrib del: replicate_Suc)
       (simp add: r del: replicate_Suc)
qed

text \<open>
  C9. For every 64-bit integer \<open>n\<close>, \<open>FormatWithCommas\<close> returns (without a run-time
  panic) the decimal digits of \<open>n\<close> grouped in threes from the right with commas, after
  a minus sign when \<open>n\<close> is negative, with no comma between the sign and the first digit;
  the five values the specification lists are as it says.
\<close>

theorem FormatWithCommas_grouped:
  "FormatWithCommas n = Some (spec_FormatWithCommas (sint n))
   \<and> FormatWithCommas 0 = Some ''0''
   \<and> FormatWithCommas 999 = Some ''999''
   \<and> FormatWithCommas 1000 = Some ''1,000''
   \<and> FormatWithCommas 1234567890 = Some ''1,234,567,890''
   \<and> FormatWithCommas (- 1234567) = Some ''-1,234,567''"
  by (simp add: FormatWithCommas_spec spec_FormatWithCommas_def grouped_def digits10.simps)

theorem FormatWithCommas_grouped_witness:
  "FormatWithCommas 12345 = Some ''12,345''
   \<and> FormatWithCommas (- 9223372036854775808) = Some ''-9,223,372,036,854,775,808''"
  using FormatWithCommas_grouped [of 12345] FormatWithCommas_grouped [of "- 9223372036854775808"]
  by (simp add: spec_FormatWithCommas_def grouped_def digits10.simps)

subsection \<open>getFileTimes\<close>

text \<open>
  C7. The map \<open>getFileTimes\<close> returns is empty, when \<^verbatim>\<open>times.Stat\<close> failed, or holds
  both the access time at \<open>a\<close> and the modification time at \<open>m\<close>; in the second case it
  holds the change time at \<open>c\<close> exactly when \<^verbatim>\<open>HasChangeTime\<close> says so and the birth time
  at \<open>b\<close> exactly when \<^verbatim>\<open>HasBirthTime\<close> says so, and it has no other key.
\<close>

theorem getFileTimes_keys:
  "(times_Stat os w file = None \<and> snd (getFileTimes os w file) = Map.empty)
   \<or> (\<exists>t. times_Stat os w file = Some t
        \<and> snd (getFileTimes os w file) ''a'' = Some (AccessTime t)
        \<and> snd (getFileTimes os w file) ''m'' = Some (ModTime t)
        \<and> snd (getFileTimes os w file) ''c'' = (if HasChangeTime t then Some (ChangeTime t) else None)
        \<and> snd (getFileTimes os w file) ''b'' = (if HasBirthTime t then Some (BirthTime t) else None)
        \<and> dom (snd (getFileTimes os w file)) \<subseteq> {''a'', ''m'', ''c'', ''b''})"
  by (cases "times_Stat os w file") (auto simp: getFileTimes_def Let_def split: if_splits)

theorem getFileTimes_keys_witness:
  "snd (getFileTimes table_OS demo_world ''link'') = Map.empty
   \<and> dom (snd (getFileTimes table_OS demo_world ''a.txt'')) = {''a'', ''m'', ''c''}"
proof -
  have 1: "times_Stat table_OS demo_world ''link'' = None"
    by (simp add: table_OS_def demo_world_def)
  have 2: "times_Stat table_OS demo_world ''a.txt'' = Some demo_times"
    by (simp add: table_OS_def demo_world_def)
  have 3: "HasChangeTime demo_times" "\<not> HasBirthTime demo_times"
    by (simp_all add: demo_times_def)
  show ?thesis
    using getFileTimes_keys [of table_OS demo_world "''link''"]
      getFileTimes_keys [of table_OS demo_world "''a.txt''"] 1 2 3
    by (auto simp: dom_def)
qed

subsection \<open>showFileTimes\<close>

lemma getFileTimes_Some:
  "times_Stat os w file = Some t \<Longrightarrow>
     getFileTimes os w file =
       ([], [''a'' \<mapsto> AccessTime t, ''m'' \<mapsto> ModTime t]
            ++ (if HasChangeTime t then [''c'' \<mapsto> ChangeTime t] else Map.empty)
            ++ (if HasBirthTime t then [''b'' \<mapsto> BirthTime t] else Map.empty))"
  by (simp add: getFileTimes_def Let_def)

lemma getFileTimes_None:
  "times_Stat os w file = None \<Longrightarrow>
     getFileTimes os w file = ([LogGetFileTimesError file], Map.empty)"
  by (simp add: getFileTimes_def)

lemma showFileTimes_loop_step:
  "showFileTimes_loop os w (file # rest) (tr, count) =
     (case os_Stat os w file of
        None \<Rightarrow> showFileTimes_loop os w rest (tr @ [OutName file, LogLstatError file], count)
      | Some fi_Size \<Rightarrow>
          (case times_Stat os w file of
             None \<Rightarrow>
               showFileTimes_loop os w rest
                 (tr @ [OutName file, OutSize (spec_FormatWithCommas (sint fi_Size)),
                        LogGetFileTimesError file,
                        OutMtime zeroTime, OutAtime zeroTime, OutBlank], count + 1)
           | Some t \<Rightarrow>
               showFileTimes_loop os w rest
                 (tr @ [OutName file, OutSize (spec_FormatWithCommas (sint fi_Size))]
                     @ (if HasBirthTime t then [OutBtime (BirthTime t)] else [])
                     @ (if HasChangeTime t then [OutCtime (ChangeTime t)] else [])
                     @ [OutMtime (ModTime t), OutAtime (AccessTime t), OutBlank], count + 1)))"
proof (cases "os_Stat os w file")
  case None
  then show ?thesis by simp
next
  case (Some fi_Size)
  note st = Some
  show ?thesis
  proof (cases "times_Stat os w file")
    case None
    then show ?thesis
      using st by (simp add: FormatWithCommas_spec getFileTimes_None index_def)
  next
    case (Some t)
    then show ?thesis
      using st by (simp add: FormatWithCommas_spec getFileTimes_Some index_def map_add_def)
  qed
qed

lemma showFileTimes_loop_count:
  "snd (showFileTimes_loop os w files (tr, count)) =
     Return (count + int (length (filter (\<lambda>file. os_Stat os w file \<noteq> None) files)))"
proof (induction files arbitrary: tr count)
  case Nil
  show ?case by simp
next
  case (Cons x rest)
  show ?case
    unfolding showFileTimes_loop_step
    by (simp add: Cons.IH split: option.splits)
qed

lemma showFileTimes_Return:
  "showFileTimes os w args =
     (fst (showFileTimes os w args),
      Return (int (length (filter (\<lambda>file. os_Stat os w file \<noteq> None) (snd (expandGlobs os w args))))))"
proof -
  have "snd (showFileTimes os w args) =
      Return (int (length (filter (\<lambda>file. os_Stat os w file \<noteq> None) (snd (expandGlobs os w args)))))"
    by (simp add: showFileTimes_def split_beta showFileTimes_loop_count)
  then show ?thesis by (metis prod.collapse)
qed

text \<open>
  C8. \<open>showFileTimes\<close> returns the number of resolved targets on which \<^verbatim>\<open>os.Stat\<close>
  succeeded. In display mode (no version flag, at least one argument, none of the three
  time-setting flags given) the process exits with status 1 when that number is zero and
  with status 0 otherwise.
\<close>

theorem showFileTimes_count:
  "snd (showFileTimes os w args) =
     Return (int (length (filter (\<lambda>file. os_Stat os w file \<noteq> None) (snd (expandGlobs os w args)))))
   \<and> (\<not> argsVersion fl \<and> flag_Args fl \<noteq> [] \<and> argsAccess fl = [] \<and> argsModify fl = []
        \<and> argsBoth fl = [] \<longrightarrow>
      snd (main os local w fl) =
        (if filter (\<lambda>file. os_Stat os w file \<noteq> None) (snd (expandGlobs os w (flag_Args fl))) = []
         then 1 else 0))"
proof -
  have 1: "snd (showFileTimes os w args) =
     Return (int (length (filter (\<lambda>file. os_Stat os w file \<noteq> None) (snd (expandGlobs os w args)))))"
    using showFileTimes_Return [of os w args] by (metis snd_conv)
  have 2: "snd (main os local w fl) =
        (if filter (\<lambda>file. os_Stat os w file \<noteq> None) (snd (expandGlobs os w (flag_Args fl))) = []
         then 1 else 0)"
    if "\<not> argsVersion fl" "flag_Args fl \<noteq> []" "argsAccess fl = []" "argsModify fl = []"
      "argsBoth fl = []"
    using that
    by (subst main_def, subst showFileTimes_Return) (simp add: Let_def)
  show ?thesis using 1 2 by blast
qed

theorem showFileTimes_count_witness:
  "snd (showFileTimes table_OS demo_world [''*.txt'', ''link'']) = Return 2
   \<and> snd (main table_OS UTC demo_world
        \<lparr>argsVersion = False, argsAccess = [], argsModify = [], argsBoth = [],
         flag_Args = [''*.txt'', ''link'']\<rparr>) = 0
   \<and> snd (main table_OS UTC demo_world
        \<lparr>argsVersion = False, argsAccess = [], argsModify = [], argsBoth = [],
         flag_Args = [''*.pdf'', ''link'']\<rparr>) = 1"
proof -
  have 1: "snd (expandGlobs table_OS demo_world [''*.txt'', ''link'']) = [''a.txt'', ''b[1].txt'', ''link'']"
    by (simp add: expandGlobs_def table_OS_def demo_world_def)
  have 2: "snd (expandGlobs table_OS demo_world [''*.pdf'', ''link'']) = [''link'']"
    by (simp add: expandGlobs_def table_OS_def demo_world_def)
  have 3: "os_Stat table_OS demo_world ''a.txt'' = Some 84"
    "os_Stat table_OS demo_world ''b[1].txt'' = Some 1234567"
    "os_Stat table_OS demo_world ''link'' = None"
    by (simp_all add: table_OS_def demo_world_def)
  show ?thesis
    using showFileTimes_count [of table_OS demo_world "[''*.txt'', ''link'']"
        "\<lparr>argsVersion = False, argsAccess = [], argsModify = [], argsBoth = [],
         flag_Args = [''*.txt'', ''link'']\<rparr>" UTC]
      showFileTimes_count [of table_OS demo_world "[]"
        "\<lparr>argsVersion = False, argsAccess = [], argsModify = [], argsBoth = [],
         flag_Args = [''*.pdf'', ''link'']\<rparr>" UTC]
    by (simp add: 1 2 3)
qed

lemma showFileTimes_loop_closed:
  "showFileTimes_loop os w files (tr, count) =
     (tr @ concat (map (report os w) files),
      Return (count + int (length (filter (\<lambda>file. os_Stat os w file \<noteq> None) files))))"
proof (induction files arbitrary: tr count)
  case Nil
  show ?case by simp
next
  case (Cons x rest)
  show ?case
    unfolding showFileTimes_loop_step
    by (simp add: Cons.IH report_def split: option.splits)
qed

text \<open>
  C5, as the program behaves. What \<open>showFileTimes\<close> emits is what the expansion of its
  arguments logs, followed by the reports of the resolved targets, one after the other in
  the order of the resolved list; it returns the number of targets on which
  \<^verbatim>\<open>os.Stat\<close> succeeded. The report of a target starts with its name, printed before
  \<^verbatim>\<open>os.Stat\<close> is called. When \<^verbatim>\<open>os.Stat\<close> fails the target is logged and skipped: nothing
  more is printed for it and it is not counted. When it succeeds the target is counted and
  the size is printed, then the birth time and the change time, each only if the file
  system has it, then the modification time, the access time and an empty line (the zero
  instant stands for both times when \<^verbatim>\<open>times.Stat\<close> fails).
\<close>

theorem showFileTimes_report:
  "showFileTimes os w args =
     (fst (expandGlobs os w args) @ concat (map (report os w) (snd (expandGlobs os w args))),
      Return (int (length (filter (\<lambda>file. os_Stat os w file \<noteq> None)
                                  (snd (expandGlobs os w args))))))
   \<and> report os w file =
       OutName file #
       (case os_Stat os w file of
          None \<Rightarrow> [LogLstatError file]
        | Some fi_Size \<Rightarrow>
            OutSize (spec_FormatWithCommas (sint fi_Size)) #
            (case times_Stat os w file of
               None \<Rightarrow> [LogGetFileTimesError file, OutMtime zeroTime, OutAtime zeroTime, OutBlank]
             | Some t \<Rightarrow>
                 (if HasBirthTime t then [OutBtime (BirthTime t)] else [])
                 @ (if HasChangeTime t then [OutCtime (ChangeTime t)] else [])
                 @ [OutMtime (ModTime t), OutAtime (AccessTime t), OutBlank]))"
  by (simp add: showFileTimes_def split_beta showFileTimes_loop_closed report_def)

theorem showFileTimes_report_witness:
  "showFileTimes table_OS demo_world [''['', ''*.txt'', ''link''] =
     ([LogGlobError ''['',
       OutName ''a.txt'', OutSize ''84'', OutCtime t2, OutMtime t1, OutAtime t2, OutBlank,
       OutName ''b[1].txt'', OutSize ''1,234,567'', OutCtime t2, OutMtime t1, OutAtime t2,
       OutBlank,
       OutName ''link'', LogLstatError ''link''], Return 2)"
proof -
  have e: "expandGlobs table_OS demo_world [''['', ''*.txt'', ''link''] =
             ([LogGlobError ''[''], [''a.txt'', ''b[1].txt'', ''link''])"
    by (simp add: expandGlobs_def table_OS_def demo_world_def)
  have s: "os_Stat table_OS demo_world ''a.txt'' = Some 84"
    "os_Stat table_OS demo_world ''b[1].txt'' = Some 1234567"
    "os_Stat table_OS demo_world ''link'' = None"
    "times_Stat table_OS demo_world ''a.txt'' = Some demo_times"
    "times_Stat table_OS demo_world ''b[1].txt'' = Some demo_times"
    by (simp_all add: table_OS_def demo_world_def)
  have f: "spec_FormatWithCommas 84 = ''84''" "spec_FormatWithCommas 1234567 = ''1,234,567''"
    by (simp_all add: spec_FormatWithCommas_def grouped_def digits10.simps)
  have r: "report table_OS demo_world ''a.txt'' =
             [OutName ''a.txt'', OutSize ''84'', OutCtime t2, OutMtime t1, OutAtime t2, OutBlank]"
    "report table_OS demo_world ''b[1].txt'' =
             [OutName ''b[1].txt'', OutSize ''1,234,567'', OutCtime t2, OutMtime t1, OutAtime t2,
              OutBlank]"
    "report table_OS demo_world ''link'' = [OutName ''link'', LogLstatError ''link'']"
    by (simp_all add: report_def s f demo_times_def)
  show ?thesis
    using showFileTimes_report [of table_OS demo_world "[''['', ''*.txt'', ''link'']" "''link''"]
    by (simp add: e s r)
qed

text \<open>
  C5, as the specification states it, fails: the dangling link is a resolved target on
  which \<^verbatim>\<open>os.Stat\<close> fails, and its name has been printed.
\<close>

theorem showFileTimes_prints_name_of_unstatable_target:
  "snd (expandGlobs table_OS demo_world [''link'']) = [''link'']
   \<and> os_Stat table_OS demo_world ''link'' = None
   \<and> showFileTimes table_OS demo_world [''link''] =
       ([OutName ''link'', LogLstatError ''link''], Return 0)"
  by (simp add: showFileTimes_def expandGlobs_def table_OS_def demo_world_def)

subsection \<open>setFileTime\<close>

lemma chtimes_calls_append: "chtimes_calls (xs @ ys) = chtimes_calls xs @ chtimes_calls ys"
  by (induction xs rule: chtimes_calls.induct) simp_all

lemma chtimes_calls_expandGlobs_loop:
  "chtimes_calls (fst (expandGlobs_loop os w args (tr, acc))) = chtimes_calls tr"
  by (induction args arbitrary: tr acc) (simp_all add: chtimes_calls_append split: option.splits)

lemma chtimes_calls_expandGlobs: "chtimes_calls (fst (expandGlobs os w args)) = []"
  by (simp add: expandGlobs_def chtimes_calls_expandGlobs_loop)

lemma chtimes_calls_showFileTimes_loop:
  "chtimes_calls (fst (showFileTimes_loop os w files (tr, count))) = chtimes_calls tr"
proof (induction files arbitrary: tr count)
  case Nil
  show ?case by simp
next
  case (Cons x rest)
  show ?case
    unfolding showFileTimes_loop_step
    by (simp add: Cons.IH chtimes_calls_append split: option.splits)
qed

lemma chtimes_calls_showFileTimes: "chtimes_calls (fst (showFileTimes os w args)) = []"
  by (simp add: showFileTimes_def split_beta chtimes_calls_showFileTimes_loop
                chtimes_calls_expandGlobs)

lemma chtimes_calls_getFileTimes: "chtimes_calls (fst (getFileTimes os w x)) = []"
  by (simp add: getFileTimes_def Let_def split: option.splits)

text \<open>One iteration of the loop of \<open>setFileTime\<close>, for an operation it knows.\<close>

lemma setFileTime_loop_step:
  assumes "op = OpAccess \<or> op = OpModify \<or> op = OpBoth"
  shows "setFileTime_loop os newTime op (x # rest) (w, tr) =
     (let cur = snd (getFileTimes os w x);
          atime = (if op = OpModify then index cur ''a'' else newTime);
          mtime = (if op = OpAccess then index cur ''m'' else newTime);
          r = os_Chtimes os w x atime mtime
      in setFileTime_loop os newTime op rest
           (fst r, tr @ fst (getFileTimes os w x) @ [CallChtimes x atime mtime]
                   @ (if snd r then fst (showFileTimes os (fst r) [x]) else [LogChtimesError x])))"
proof -
  obtain lg cur where g: "getFileTimes os w x = (lg, cur)" by (cases "getFileTimes os w x")
  have ops: "OpModify \<noteq> OpAccess" "OpModify \<noteq> OpBoth" "OpAccess \<noteq> OpBoth"
    by (simp_all add: OpModify_def OpAccess_def OpBoth_def)
  define atime where "atime = (if op = OpModify then index cur ''a'' else newTime)"
  define mtime where "mtime = (if op = OpAccess then index cur ''m'' else newTime)"
  obtain w' ok where c: "os_Chtimes os w x atime mtime = (w', ok)"
    by (cases "os_Chtimes os w x atime mtime")
  obtain shown n where s: "showFileTimes os w' [x] = (shown, Return n)"
    using showFileTimes_Return [of os w' "[x]"] by blast
  have call: "(if OpModify = op then Some (index cur ''a'', newTime)
               else if OpAccess = op then Some (newTime, index cur ''m'')
               else if OpBoth = op then Some (newTime, newTime)
               else None) = Some (atime, mtime)"
    using assms ops by (auto simp: atime_def mtime_def)
  have "setFileTime_loop os newTime op (x # rest) (w, tr) =
        setFileTime_loop os newTime op rest
          (w', tr @ lg @ [CallChtimes x atime mtime]
               @ (if ok then shown else [LogChtimesError x]))"
    by (simp add: g call c s del: setFileTime_loop.simps(1))
  then show ?thesis
    by (simp add: g c s Let_def atime_def [symmetric] mtime_def [symmetric]
             del: setFileTime_loop.simps)
qed

lemma setFileTime_loop_acc:
  assumes "op = OpAccess \<or> op = OpModify \<or> op = OpBoth"
  shows "setFileTime_loop os newTime op files (w, tr) =
     ((world_after os newTime op files w,
       tr @ snd (fst (setFileTime_loop os newTime op files (w, [])))), Return ())"
proof (induction files arbitrary: w tr)
  case Nil
  show ?case by (simp add: world_after_def)
next
  case (Cons x rest)
  show ?case
    unfolding setFileTime_loop_step [OF assms] world_after_def Let_def
    by (subst Cons.IH, subst (2 3) Cons.IH) (simp add: world_after_def)
qed

lemma world_after_Cons:
  assumes "op = OpAccess \<or> op = OpModify \<or> op = OpBoth"
  shows "world_after os newTime op (x # rest) w =
     world_after os newTime op rest
       (fst (os_Chtimes os w x
              (if op = OpModify then index (snd (getFileTimes os w x)) ''a'' else newTime)
              (if op = OpAccess then index (snd (getFileTimes os w x)) ''m'' else newTime)))"
  unfolding world_after_def setFileTime_loop_step [OF assms] Let_def
  by (subst setFileTime_loop_acc [OF assms]) (simp add: world_after_def)

lemma world_after_append:
  assumes "op = OpAccess \<or> op = OpModify \<or> op = OpBoth"
  shows "world_after os newTime op (xs @ ys) w =
     world_after os newTime op ys (world_after os newTime op xs w)"
proof (induction xs arbitrary: w)
  case Nil
  show ?case by (simp add: world_after_def)
next
  case (Cons x xs)
  show ?case unfolding append_Cons world_after_Cons [OF assms] Cons.IH by simp
qed

lemma loop_calls_Cons:
  assumes "op = OpAccess \<or> op = OpModify \<or> op = OpBoth"
  shows "chtimes_calls (snd (fst (setFileTime_loop os newTime op (x # rest) (w, [])))) =
     (x, if op = OpModify then index (snd (getFileTimes os w x)) ''a'' else newTime,
         if op = OpAccess then index (snd (getFileTimes os w x)) ''m'' else newTime)
     # chtimes_calls (snd (fst (setFileTime_loop os newTime op rest
         (fst (os_Chtimes os w x
              (if op = OpModify then index (snd (getFileTimes os w x)) ''a'' else newTime)
              (if op = OpAccess then index (snd (getFileTimes os w x)) ''m'' else newTime)), []))))"
  unfolding setFileTime_loop_step [OF assms] Let_def
  by (subst setFileTime_loop_acc [OF assms])
     (simp add: chtimes_calls_append chtimes_calls_getFileTimes chtimes_calls_showFileTimes)

lemma loop_calls_append:
  assumes "op = OpAccess \<or> op = OpModify \<or> op = OpBoth"
  shows "chtimes_calls (snd (fst (setFileTime_loop os newTime op (xs @ ys) (w, [])))) =
     chtimes_calls (snd (fst (setFileTime_loop os newTime op xs (w, []))))
     @ chtimes_calls (snd (fst (setFileTime_loop os newTime op ys
         (world_after os newTime op xs w, []))))"
proof (induction xs arbitrary: w)
  case Nil
  show ?case by (simp add: world_after_def)
next
  case (Cons x xs)
  show ?case
    unfolding append_Cons loop_calls_Cons [OF assms] world_after_Cons [OF assms] Cons.IH
    by simp
qed

lemma loop_calls_length:
  assumes "op = OpAccess \<or> op = OpModify \<or> op = OpBoth"
  shows "length (chtimes_calls (snd (fst (setFileTime_loop os newTime op xs (w, []))))) = length xs"
proof (induction xs arbitrary: w)
  case Nil
  show ?case by simp
next
  case (Cons x xs)
  show ?case unfolding loop_calls_Cons [OF assms] by (simp add: Cons.IH)
qed

text \<open>The calls of a whole run of \<open>setFileTime\<close> are those of its loop.\<close>

lemma setFileTime_calls:
  assumes "createDate local dt = Inr newTime" and "op = OpAccess \<or> op = OpModify \<or> op = OpBoth"
  shows "chtimes_calls (snd (fst (setFileTime os local w args dt op))) =
     chtimes_calls (snd (fst (setFileTime_loop os newTime op (snd (expandGlobs os w args)) (w, []))))"
  unfolding setFileTime_def
  by (simp add: assms(1) split_beta)
     (subst setFileTime_loop_acc [OF assms(2)],
      simp add: chtimes_calls_append chtimes_calls_expandGlobs)

text \<open>The call for the target the loop reaches after the files \<open>before\<close>.\<close>

lemma setFileTime_call_at:
  assumes "createDate local dt = Inr newTime" and "op = OpAccess \<or> op = OpModify \<or> op = OpBoth"
    and "snd (expandGlobs os w args) = before @ target # after"
  shows "length (chtimes_calls (snd (fst (setFileTime os local w args dt op)))) =
           length (before @ target # after)"
    and "chtimes_calls (snd (fst (setFileTime os local w args dt op))) ! length before =
     (target,
      if op = OpModify
      then index (snd (getFileTimes os (world_after os newTime op before w) target)) ''a''
      else newTime,
      if op = OpAccess
      then index (snd (getFileTimes os (world_after os newTime op before w) target)) ''m''
      else newTime)"
proof -
  note calls = setFileTime_calls [OF assms(1,2), of os w args]
  show "length (chtimes_calls (snd (fst (setFileTime os local w args dt op)))) =
           length (before @ target # after)"
    unfolding calls assms(3) by (rule loop_calls_length [OF assms(2)])
  have l: "length (chtimes_calls (snd (fst (setFileTime_loop os newTime op before (w, []))))) =
           length before"
    by (rule loop_calls_length [OF assms(2)])
  show "chtimes_calls (snd (fst (setFileTime os local w args dt op))) ! length before =
     (target,
      if op = OpModify
      then index (snd (getFileTimes os (world_after os newTime op before w) target)) ''a''
      else newTime,
      if op = OpAccess
      then index (snd (getFileTimes os (world_after os newTime op before w) target)) ''m''
      else newTime)"
    unfolding calls assms(3) loop_calls_append [OF assms(2)] loop_calls_Cons [OF assms(2)]
    using l by (simp add: nth_append)
qed

text \<open>The world a whole run of \<open>setFileTime\<close> returns is the one its loop ends in.\<close>

lemma setFileTime_world:
  assumes "createDate local dt = Inr newTime" and "op = OpAccess \<or> op = OpModify \<or> op = OpBoth"
  shows "fst (fst (setFileTime os local w args dt op)) =
     world_after os newTime op (snd (expandGlobs os w args)) w"
  unfolding setFileTime_def
  by (simp add: assms(1) split_beta) (subst setFileTime_loop_acc [OF assms(2)], simp)

lemma world_after_Nil: "world_after os newTime op [] w = w"
  by (simp add: world_after_def)

text \<open>The world after the target the loop reaches after the files \<open>before\<close>.\<close>

lemma setFileTime_world_at:
  assumes "createDate local dt = Inr newTime" and "op = OpAccess \<or> op = OpModify \<or> op = OpBoth"
    and "snd (expandGlobs os w args) = before @ target # after"
  shows "fst (fst (setFileTime os local w args dt op)) =
     world_after os newTime op after
       (fst (os_Chtimes os (world_after os newTime op before w) target
          (if op = OpModify
           then index (snd (getFileTimes os (world_after os newTime op before w) target)) ''a''
           else newTime)
          (if op = OpAccess
           then index (snd (getFileTimes os (world_after os newTime op before w) target)) ''m''
           else newTime)))"
  unfolding setFileTime_world [OF assms(1,2)] assms(3) world_after_append [OF assms(2)]
    world_after_Cons [OF assms(2)]
  by (rule refl)

text \<open>
  C1. Let \<open>setFileTime\<close> run with a timestamp that parses to \<open>newTime\<close> and with one of
  the three operations, and let \<open>target\<close> be any of the resolved files, \<open>before\<close> the
  resolved files that precede it and \<open>after\<close> those that follow. If \<^verbatim>\<open>times.Stat\<close> reads
  the times \<open>cur\<close> of \<open>target\<close> when the loop reaches it, then the call of \<^verbatim>\<open>os.Chtimes\<close>
  for \<open>target\<close> (there is exactly one call per resolved file, in order) passes
  \<open>(newTime, ModTime cur)\<close> for the operation \<open>a\<close>, \<open>(AccessTime cur, newTime)\<close> for \<open>m\<close> and
  \<open>(newTime, newTime)\<close> for \<open>b\<close>, and the file system is changed by it: the world that
  \<open>setFileTime\<close> returns is the world that this call of \<^verbatim>\<open>os.Chtimes\<close> made of the one
  the loop was in, as the files of \<open>after\<close> have then left it (the very world of that call
  when \<open>target\<close> is the last file).
\<close>

theorem setFileTime_writes_pair:
  assumes "createDate local dt = Inr newTime"
    and "op = OpAccess \<or> op = OpModify \<or> op = OpBoth"
    and "snd (expandGlobs os w args) = before @ target # after"
    and "times_Stat os (world_after os newTime op before w) target = Some cur"
  shows "length (chtimes_calls (snd (fst (setFileTime os local w args dt op)))) =
           length (before @ target # after)
     \<and> (op = OpAccess \<longrightarrow>
          chtimes_calls (snd (fst (setFileTime os local w args dt op))) ! length before =
            (target, newTime, ModTime cur)
          \<and> fst (fst (setFileTime os local w args dt op)) =
              world_after os newTime op after
                (fst (os_Chtimes os (world_after os newTime op before w) target
                        newTime (ModTime cur))))
     \<and> (op = OpModify \<longrightarrow>
          chtimes_calls (snd (fst (setFileTime os local w args dt op))) ! length before =
            (target, AccessTime cur, newTime)
          \<and> fst (fst (setFileTime os local w args dt op)) =
              world_after os newTime op after
                (fst (os_Chtimes os (world_after os newTime op before w) target
                        (AccessTime cur) newTime)))
     \<and> (op = OpBoth \<longrightarrow>
          chtimes_calls (snd (fst (setFileTime os local w args dt op))) ! length before =
            (target, newTime, newTime)
          \<and> fst (fst (setFileTime os local w args dt op)) =
              world_after os newTime op after
                (fst (os_Chtimes os (world_after os newTime op before w) target
                        newTime newTime)))"
proof -
  have ops: "OpModify \<noteq> OpAccess" "OpModify \<noteq> OpBoth" "OpAccess \<noteq> OpBoth"
    by (simp_all add: OpModify_def OpAccess_def OpBoth_def)
  have cur: "index (snd (getFileTimes os (world_after os newTime op before w) target)) ''a'' =
               AccessTime cur"
    "index (snd (getFileTimes os (world_after os newTime op before w) target)) ''m'' =
               ModTime cur"
    by (simp_all add: getFileTimes_Some [OF assms(4)] index_def map_add_def)
  note at = setFileTime_call_at [OF assms(1,2,3)]
  note wd = setFileTime_world_at [OF assms(1,2,3)]
  have a: "op = OpAccess \<longrightarrow>
          chtimes_calls (snd (fst (setFileTime os local w args dt op))) ! length before =
            (target, newTime, ModTime cur)
          \<and> fst (fst (setFileTime os local w args dt op)) =
              world_after os newTime op after
                (fst (os_Chtimes os (world_after os newTime op before w) target
                        newTime (ModTime cur)))"
    using at(2) wd ops cur by auto
  have m: "op = OpModify \<longrightarrow>
          chtimes_calls (snd (fst (setFileTime os local w args dt op))) ! length before =
            (target, AccessTime cur, newTime)
          \<and> fst (fst (setFileTime os local w args dt op)) =
              world_after os newTime op after
                (fst (os_Chtimes os (world_after os newTime op before w) target
                        (AccessTime cur) newTime))"
    using at(2) wd ops cur by auto
  have b: "op = OpBoth \<longrightarrow>
          chtimes_calls (snd (fst (setFileTime os local w args dt op))) ! length before =
            (target, newTime, newTime)
          \<and> fst (fst (setFileTime os local w args dt op)) =
              world_after os newTime op after
                (fst (os_Chtimes os (world_after os newTime op before w) target
                        newTime newTime))"
    using at(2) wd ops by auto
  show ?thesis using at(1) a m b by blast
qed

theorem setFileTime_writes_pair_witness:
  "chtimes_calls (snd (fst (setFileTime table_OS UTC demo_world [''a.txt''] ''20200115.120000'' OpAccess))) =
     [(''a.txt'', \<lparr>t_unix = 1579089600, t_nsec = 0, t_loc = UTC\<rparr>, t1)]
   \<and> times_Stat table_OS
        (fst (fst (setFileTime table_OS UTC demo_world [''a.txt''] ''20200115.120000'' OpAccess)))
        ''a.txt'' =
       Some (demo_times\<lparr>AccessTime := \<lparr>t_unix = 1579089600, t_nsec = 0, t_loc = UTC\<rparr>\<rparr>)
   \<and> chtimes_calls (snd (fst (setFileTime table_OS UTC demo_world [''a.txt''] ''20200115.120000'' OpModify))) =
     [(''a.txt'', t2, \<lparr>t_unix = 1579089600, t_nsec = 0, t_loc = UTC\<rparr>)]
   \<and> times_Stat table_OS
        (fst (fst (setFileTime table_OS UTC demo_world [''a.txt''] ''20200115.120000'' OpModify)))
        ''a.txt'' =
       Some (demo_times\<lparr>ModTime := \<lparr>t_unix = 1579089600, t_nsec = 0, t_loc = UTC\<rparr>\<rparr>)
   \<and> chtimes_calls (snd (fst (setFileTime table_OS UTC demo_world [''a.txt''] ''20200115.120000'' OpBoth))) =
     [(''a.txt'', \<lparr>t_unix = 1579089600, t_nsec = 0, t_loc = UTC\<rparr>,
       \<lparr>t_unix = 1579089600, t_nsec = 0, t_loc = UTC\<rparr>)]
   \<and> times_Stat table_OS
        (fst (fst (setFileTime table_OS UTC demo_world [''a.txt''] ''20200115.120000'' OpBoth)))
        ''a.txt'' =
       Some (demo_times\<lparr>AccessTime := \<lparr>t_unix = 1579089600, t_nsec = 0, t_loc = UTC\<rparr>,
                         ModTime := \<lparr>t_unix = 1579089600, t_nsec = 0, t_loc = UTC\<rparr>\<rparr>)
   \<and> chtimes_calls (snd (fst (setFileTime table_OS UTC demo_world [''*.txt''] ''20200115.120000'' OpModify))) ! 1 =
     (''b[1].txt'', t2, \<lparr>t_unix = 1579089600, t_nsec = 0, t_loc = UTC\<rparr>)
   \<and> times_Stat table_OS
        (fst (fst (setFileTime table_OS UTC demo_world [''*.txt''] ''20200115.120000'' OpModify)))
        ''b[1].txt'' =
       Some (demo_times\<lparr>ModTime := \<lparr>t_unix = 1579089600, t_nsec = 0, t_loc = UTC\<rparr>\<rparr>)"
proof -
  let ?t = "\<lparr>t_unix = 1579089600, t_nsec = 0, t_loc = UTC\<rparr>"
  have d: "createDate UTC ''20200115.120000'' = Inr ?t"
    by code_simp
  have e: "snd (expandGlobs table_OS demo_world [''a.txt'']) = [] @ ''a.txt'' # []"
    by (simp add: expandGlobs_def table_OS_def demo_world_def)
  have s: "times_Stat table_OS (world_after table_OS ?t op [] demo_world) ''a.txt'' = Some demo_times"
    for op
    by (simp add: world_after_def table_OS_def demo_world_def)
  have ops: "OpModify \<noteq> OpAccess" "OpModify \<noteq> OpBoth" "OpAccess \<noteq> OpBoth"
    by (simp_all add: OpModify_def OpAccess_def OpBoth_def)
  have one: "length xs = 1 \<Longrightarrow> xs ! 0 = x \<Longrightarrow> xs = [x]" for xs :: "(string \<times> Time \<times> Time) list" and x
    by (cases xs) auto
  have c: "times_Stat table_OS (fst (os_Chtimes table_OS demo_world ''a.txt'' x y)) ''a.txt'' =
             Some (demo_times\<lparr>AccessTime := x, ModTime := y\<rparr>)" for x y
    by (simp add: table_OS_def demo_world_def)
  have a: "chtimes_calls (snd (fst (setFileTime table_OS UTC demo_world [''a.txt''] ''20200115.120000'' OpAccess))) =
     [(''a.txt'', ?t, t1)]
   \<and> times_Stat table_OS
        (fst (fst (setFileTime table_OS UTC demo_world [''a.txt''] ''20200115.120000'' OpAccess)))
        ''a.txt'' = Some (demo_times\<lparr>AccessTime := ?t\<rparr>)"
    using setFileTime_writes_pair [OF d _ e s, of OpAccess] ops
    by (auto simp: world_after_Nil c demo_times_def intro!: one)
  have m: "chtimes_calls (snd (fst (setFileTime table_OS UTC demo_world [''a.txt''] ''20200115.120000'' OpModify))) =
     [(''a.txt'', t2, ?t)]
   \<and> times_Stat table_OS
        (fst (fst (setFileTime table_OS UTC demo_world [''a.txt''] ''20200115.120000'' OpModify)))
        ''a.txt'' = Some (demo_times\<lparr>ModTime := ?t\<rparr>)"
    using setFileTime_writes_pair [OF d _ e s, of OpModify] ops
    by (auto simp: world_after_Nil c demo_times_def intro!: one)
  have b: "chtimes_calls (snd (fst (setFileTime table_OS UTC demo_world [''a.txt''] ''20200115.120000'' OpBoth))) =
     [(''a.txt'', ?t, ?t)]
   \<and> times_Stat table_OS
        (fst (fst (setFileTime table_OS UTC demo_world [''a.txt''] ''20200115.120000'' OpBoth)))
        ''a.txt'' = Some (demo_times\<lparr>AccessTime := ?t, ModTime := ?t\<rparr>)"
    using setFileTime_writes_pair [OF d _ e s, of OpBoth] ops
    by (auto simp: world_after_Nil c demo_times_def intro!: one)
  have e2: "snd (expandGlobs table_OS demo_world [''*.txt'']) = [''a.txt''] @ ''b[1].txt'' # []"
    by (simp add: expandGlobs_def table_OS_def demo_world_def)
  have w2: "world_after table_OS ?t OpModify [''a.txt''] demo_world =
              fst (os_Chtimes table_OS demo_world ''a.txt'' t2 ?t)"
    using ops
    by (simp add: world_after_Cons world_after_Nil getFileTimes_def index_def
                  table_OS_def demo_world_def demo_times_def)
  have s2: "times_Stat table_OS (world_after table_OS ?t OpModify [''a.txt''] demo_world)
              ''b[1].txt'' = Some demo_times"
    unfolding w2 by (simp add: table_OS_def demo_world_def)
  have c2: "times_Stat table_OS
              (fst (os_Chtimes table_OS (fst (os_Chtimes table_OS demo_world ''a.txt'' t2 ?t))
                      ''b[1].txt'' x y)) ''b[1].txt'' =
             Some (demo_times\<lparr>AccessTime := x, ModTime := y\<rparr>)" for x y
    by (simp add: table_OS_def demo_world_def)
  have m2: "chtimes_calls (snd (fst (setFileTime table_OS UTC demo_world [''*.txt''] ''20200115.120000'' OpModify))) ! 1 =
     (''b[1].txt'', t2, ?t)
   \<and> times_Stat table_OS
        (fst (fst (setFileTime table_OS UTC demo_world [''*.txt''] ''20200115.120000'' OpModify)))
        ''b[1].txt'' = Some (demo_times\<lparr>ModTime := ?t\<rparr>)"
    using setFileTime_writes_pair [OF d _ e2 s2] ops
    by (simp add: world_after_Nil w2 c2 demo_times_def)
  show ?thesis using a m b m2 by simp
qed




text \<open>
  C4, as the program behaves. Take a command line with no version flag and at least one
  argument. If one of the three time-setting flags holds a text \<open>ts\<close> that is not empty
  and that the regular expression of \<open>main\<close> rejects or \<open>createDate\<close> cannot parse, the
  process ends with status 1; the world is the one the process started in, and the only
  event is the fatal log line: no pattern has been expanded and \<^verbatim>\<open>os.Chtimes\<close> has not
  been called. \<open>setFileTime\<close> itself parses the timestamp before it expands its arguments
  and stops there when the parse fails. A flag whose text is empty counts as not given:
  when all three are empty the process reports the files as in display mode, with the
  exit status of display mode, \<^verbatim>\<open>os.Chtimes\<close> is not called and the world is the one the
  process started in.
\<close>

theorem malformed_timestamp_is_fatal:
  assumes "\<not> argsVersion fl" and "flag_Args fl \<noteq> []"
  shows "(ts \<noteq> [] \<and> (argsAccess fl = ts \<or> argsModify fl = ts \<or> argsBoth fl = ts)
          \<and> (\<not> validDT_MatchString ts \<or> (\<exists>err. createDate local ts = Inl err)) \<longrightarrow>
            (\<exists>msg. main os local w fl = ((w, [LogFatal msg]), 1))
            \<and> chtimes_calls (snd (fst (main os local w fl))) = [])
     \<and> ((\<exists>err. createDate local ts = Inl err) \<longrightarrow>
          (\<exists>msg. setFileTime os local w args ts op = ((w, [LogFatal msg]), Exit 1)))
     \<and> (argsAccess fl = [] \<and> argsModify fl = [] \<and> argsBoth fl = [] \<longrightarrow>
          fst (fst (main os local w fl)) = w
          \<and> chtimes_calls (snd (fst (main os local w fl))) = []
          \<and> snd (main os local w fl) =
              (if filter (\<lambda>file. os_Stat os w file \<noteq> None)
                         (snd (expandGlobs os w (flag_Args fl))) = []
               then 1 else 0))"
proof -
  have m: "\<exists>msg. main os local w fl = ((w, [LogFatal msg]), 1)"
    if ne: "ts \<noteq> []" and fl: "argsAccess fl = ts \<or> argsModify fl = ts \<or> argsBoth fl = ts"
      and bad: "\<not> validDT_MatchString ts \<or> (\<exists>err. createDate local ts = Inl err)"
  proof (cases "validDT_MatchString ts")
    case False
    then show ?thesis
      using assms ne fl by (auto simp: main_def Let_def)
  next
    case True
    then obtain err where "createDate local ts = Inl err" using bad by blast
    then show ?thesis
      using assms ne fl True by (auto simp: main_def Let_def setFileTime_def)
  qed
  have 1: "ts \<noteq> [] \<and> (argsAccess fl = ts \<or> argsModify fl = ts \<or> argsBoth fl = ts)
          \<and> (\<not> validDT_MatchString ts \<or> (\<exists>err. createDate local ts = Inl err)) \<longrightarrow>
            (\<exists>msg. main os local w fl = ((w, [LogFatal msg]), 1))
            \<and> chtimes_calls (snd (fst (main os local w fl))) = []"
    using m by auto
  have 2: "(\<exists>err. createDate local ts = Inl err) \<longrightarrow>
          (\<exists>msg. setFileTime os local w args ts op = ((w, [LogFatal msg]), Exit 1))"
    by (auto simp: setFileTime_def)
  have 3: "fst (fst (main os local w fl)) = w
          \<and> chtimes_calls (snd (fst (main os local w fl))) = []
          \<and> snd (main os local w fl) =
              (if filter (\<lambda>file. os_Stat os w file \<noteq> None)
                         (snd (expandGlobs os w (flag_Args fl))) = []
               then 1 else 0)"
    if "argsAccess fl = []" "argsModify fl = []" "argsBoth fl = []"
  proof -
    have c: "chtimes_calls (fst (showFileTimes os w (flag_Args fl))) = []"
      by (rule chtimes_calls_showFileTimes)
    show ?thesis
      using assms that c
      by (subst (1 2 3) main_def, subst (1 2 3) showFileTimes_Return)
         (simp add: Let_def chtimes_calls_append)
  qed
  show ?thesis using 1 2 3 by blast
qed

theorem malformed_timestamp_is_fatal_witness:
  "main table_OS UTC demo_world
     \<lparr>argsVersion = False, argsAccess = [], argsModify = ''20211329.143025'', argsBoth = [],
      flag_Args = [''*.txt'']\<rparr> = ((demo_world, [LogFatal ''Error parsing date'']), 1)
   \<and> main table_OS UTC demo_world
     \<lparr>argsVersion = False, argsAccess = ''2021-03-29'', argsModify = [], argsBoth = [],
      flag_Args = [''*.txt'']\<rparr> = ((demo_world, [LogFatal ''invalid time stamp'']), 1)
   \<and> main table_OS UTC demo_world
     \<lparr>argsVersion = False, argsAccess = ''2021-03-29'', argsModify = [],
      argsBoth = ''20210329.143025'', flag_Args = [''*.txt'']\<rparr> =
       ((demo_world, [LogFatal ''mutually exclusive'']), 1)
   \<and> fst (fst (main table_OS UTC demo_world
     \<lparr>argsVersion = False, argsAccess = [], argsModify = [], argsBoth = [],
      flag_Args = [''*.txt'']\<rparr>)) = demo_world
   \<and> snd (main table_OS UTC demo_world
     \<lparr>argsVersion = False, argsAccess = [], argsModify = [], argsBoth = [],
      flag_Args = [''*.txt'']\<rparr>) = 0"
proof -
  have 1: "\<exists>err. createDate UTC ''20211329.143025'' = Inl err"
    by (rule exI [of _ "errRange ''month''"]) code_simp
  have 2: "\<not> validDT_MatchString ''2021-03-29''"
    by code_simp
  have 3: "validDT_MatchString ''20211329.143025''"
    by code_simp
  have 4: "snd (expandGlobs table_OS demo_world [''*.txt'']) = [''a.txt'', ''b[1].txt'']"
    by (simp add: expandGlobs_def table_OS_def demo_world_def)
  have 5: "os_Stat table_OS demo_world ''a.txt'' = Some 84"
    by (simp add: table_OS_def demo_world_def)
  have a: "main table_OS UTC demo_world
     \<lparr>argsVersion = False, argsAccess = [], argsModify = ''20211329.143025'', argsBoth = [],
      flag_Args = [''*.txt'']\<rparr> = ((demo_world, [LogFatal ''Error parsing date'']), 1)"
    using malformed_timestamp_is_fatal [where
        fl = "\<lparr>argsVersion = False, argsAccess = [], argsModify = ''20211329.143025'',
               argsBoth = [], flag_Args = [''*.txt'']\<rparr>"
        and ts = "''20211329.143025''" and local = UTC and os = table_OS and w = demo_world]
      1 3
    by (auto simp: main_def Let_def setFileTime_def)
  have b: "main table_OS UTC demo_world
     \<lparr>argsVersion = False, argsAccess = ''2021-03-29'', argsModify = [], argsBoth = [],
      flag_Args = [''*.txt'']\<rparr> = ((demo_world, [LogFatal ''invalid time stamp'']), 1)"
    using malformed_timestamp_is_fatal [where
        fl = "\<lparr>argsVersion = False, argsAccess = ''2021-03-29'', argsModify = [],
               argsBoth = [], flag_Args = [''*.txt'']\<rparr>"
        and ts = "''2021-03-29''" and local = UTC and os = table_OS and w = demo_world]
      2
    by (auto simp: main_def Let_def)
  have c: "main table_OS UTC demo_world
     \<lparr>argsVersion = False, argsAccess = ''2021-03-29'', argsModify = [],
      argsBoth = ''20210329.143025'', flag_Args = [''*.txt'']\<rparr> =
       ((demo_world, [LogFatal ''mutually exclusive'']), 1)"
    using malformed_timestamp_is_fatal [where
        fl = "\<lparr>argsVersion = False, argsAccess = ''2021-03-29'', argsModify = [],
               argsBoth = ''20210329.143025'', flag_Args = [''*.txt'']\<rparr>"
        and ts = "''2021-03-29''" and local = UTC and os = table_OS and w = demo_world]
      2
    by (auto simp: main_def Let_def)
  have d: "fst (fst (main table_OS UTC demo_world
     \<lparr>argsVersion = False, argsAccess = [], argsModify = [], argsBoth = [],
      flag_Args = [''*.txt'']\<rparr>)) = demo_world
   \<and> snd (main table_OS UTC demo_world
     \<lparr>argsVersion = False, argsAccess = [], argsModify = [], argsBoth = [],
      flag_Args = [''*.txt'']\<rparr>) = 0"
    using malformed_timestamp_is_fatal [where
        fl = "\<lparr>argsVersion = False, argsAccess = [], argsModify = [],
               argsBoth = [], flag_Args = [''*.txt'']\<rparr>"
        and local = UTC and os = table_OS and w = demo_world]
    by (simp add: 4 5)
  show ?thesis using a b c d by simp
qed

text \<open>
  C4, as it is stated, fails for the empty timestamp: the empty text is malformed (the
  regular expression rejects it and \<open>createDate\<close> cannot parse it), but with \<^verbatim>\<open>-a ""\<close>
  the command line after \<^verbatim>\<open>flag.Parse\<close> is the one of display mode, and the process
  reports the file and ends with status 0.
\<close>

theorem empty_timestamp_is_not_fatal:
  "\<not> validDT_MatchString []
   \<and> createDate UTC [] = Inl errBad
   \<and> main table_OS UTC demo_world
       \<lparr>argsVersion = False, argsAccess = [], argsModify = [], argsBoth = [],
        flag_Args = [''a.txt'']\<rparr> =
       ((demo_world,
         [OutName ''a.txt'', OutSize ''84'', OutCtime t2, OutMtime t1, OutAtime t2, OutBlank]),
        0)"
proof -
  have 1: "\<not> validDT_MatchString []"
    by (simp add: validDT_MatchString_def)
  have 2: "createDate UTC [] = Inl errBad"
    by code_simp
  have e: "expandGlobs table_OS demo_world [''a.txt''] = ([], [''a.txt''])"
    by (simp add: expandGlobs_def table_OS_def demo_world_def)
  have s: "os_Stat table_OS demo_world ''a.txt'' = Some 84"
    "times_Stat table_OS demo_world ''a.txt'' = Some demo_times"
    by (simp_all add: table_OS_def demo_world_def)
  have f: "spec_FormatWithCommas 84 = ''84''"
    by (simp add: spec_FormatWithCommas_def grouped_def digits10.simps)
  have sh: "showFileTimes table_OS demo_world [''a.txt''] =
      ([OutName ''a.txt'', OutSize ''84'', OutCtime t2, OutMtime t1, OutAtime t2, OutBlank],
       Return 1)"
    by (simp add: showFileTimes_def e showFileTimes_loop_closed report_def s f demo_times_def)
  show ?thesis
    using 1 2 by (simp add: main_def sh)
qed

subsection \<open>The calendar of Go's time package\<close>

lemma div_cycle: "0 \<le> r \<Longrightarrow> r < k \<Longrightarrow> (k * q + r) div k = (q::int)"
  by (simp add: div_pos_pos_trivial)

lemma succ_mod: 
  fixes Y k :: int
  assumes k: "0 < k"
  shows "(Y + 1) mod k = 0 \<longleftrightarrow> Y mod k = k - 1"
proof -
  have r: "0 \<le> Y mod k" "Y mod k < k" using k by simp_all
  have e: "(Y + 1) mod k = (Y mod k + 1) mod k" by (simp add: mod_add_left_eq)
  show ?thesis
  proof (cases "Y mod k = k - 1")
    case True
    then show ?thesis using e by simp
  next
    case False
    then have "Y mod k + 1 < k" using r by linarith
    then have "(Y mod k + 1) mod k = Y mod k + 1" using r by (simp add: mod_pos_pos_trivial)
    then show ?thesis using e r False by linarith
  qed
qed

lemma split_mod:
  fixes m j :: int
  assumes "0 < j" 
  shows "m = q * j + r \<and> 0 \<le> r \<and> r < j \<longleftrightarrow> m div j = q \<and> m mod j = r"
proof
  assume a: "m = q * j + r \<and> 0 \<le> r \<and> r < j"
  then show "m div j = q \<and> m mod j = r"
    using assms by (simp add: div_pos_pos_trivial mod_pos_pos_trivial)
next
  assume "m div j = q \<and> m mod j = r"
  then show "m = q * j + r \<and> 0 \<le> r \<and> r < j"
    using assms by (metis div_mult_mod_eq pos_mod_bound pos_mod_sign)
qed

lemma mod_100_99: "Y mod 100 = 99 \<longleftrightarrow> Y mod 100 div 4 = 24 \<and> Y mod 4 = 3" for Y :: int
proof -
  have "Y mod 4 = Y mod 100 mod 4" by (simp add: mod_mod_cancel)
  then show ?thesis
    using split_mod [of 4 "Y mod 100" 24 3] by auto
qed

lemma mod_400_399:
  "Y mod 400 = 399 \<longleftrightarrow> Y mod 400 div 100 = 3 \<and> Y mod 100 = 99" for Y :: int
proof -
  have "Y mod 100 = Y mod 400 mod 100" by (simp add: mod_mod_cancel)
  then show ?thesis
    using split_mod [of 100 "Y mod 400" 3 99] by auto
qed

lemma leap_shift:
  "(Y + 1) mod 4 = 0 \<and> ((Y + 1) mod 100 \<noteq> 0 \<or> (Y + 1) mod 400 = 0) \<longleftrightarrow>
     Y mod 4 = 3 \<and> (Y mod 100 div 4 \<noteq> 24 \<or> Y mod 400 div 100 = 3)" for Y :: int
  using succ_mod [of 4 Y] succ_mod [of 100 Y] succ_mod [of 400 Y] mod_400_399 [of Y] mod_100_99 [of Y]
  by auto

lemma year_of_days:
  fixes a b c e yd :: int
  assumes b: "0 \<le> b" "b < 4" and c: "0 \<le> c" "c < 25" and e: "0 \<le> e" "e < 4"
    and yd: "0 \<le> yd" "yd \<le> (if e = 3 \<and> (c \<noteq> 24 \<or> b = 3) then 365 else 364)"
  defines "D \<equiv> 146097 * a + 36524 * b + 1461 * c + 365 * e + yd"
  shows "D div 146097 = a"
    and "(D - 146097 * a) div 36524 - (D - 146097 * a) div 36524 div 4 = b"
    and "(D - 146097 * a - 36524 * b) div 1461 = c"
    and "(D - 146097 * a - 36524 * b - 1461 * c) div 365
           - (D - 146097 * a - 36524 * b - 1461 * c) div 365 div 4 = e"
    and "D - 146097 * a - 36524 * b - 1461 * c - 365 * e = yd"
proof -
  have yd365: "yd \<le> 365" using yd(2) by (simp split: if_splits)
  have full: "yd = 365 \<Longrightarrow> e = 3 \<and> (c \<noteq> 24 \<or> b = 3)"
    using yd(2) by (simp split: if_splits)
  show "D div 146097 = a"
  proof -
    have "D = 146097 * a + (36524 * b + 1461 * c + 365 * e + yd)" by (simp add: D_def)
    moreover have "0 \<le> 36524 * b + 1461 * c + 365 * e + yd"
      "36524 * b + 1461 * c + 365 * e + yd < 146097"
      using b c e yd(1) yd365 by linarith+
    ultimately show ?thesis by (simp only: div_cycle)
  qed
  show "(D - 146097 * a) div 36524 - (D - 146097 * a) div 36524 div 4 = b"
  proof (cases "1461 * c + 365 * e + yd < 36524")
    case True
    have "D - 146097 * a = 36524 * b + (1461 * c + 365 * e + yd)" by (simp add: D_def)
    moreover have "0 \<le> 1461 * c + 365 * e + yd" using c e yd(1) by linarith
    ultimately have "(D - 146097 * a) div 36524 = b" using True by (simp only: div_cycle)
    moreover have "b div 4 = 0" using b by (simp add: div_pos_pos_trivial)
    ultimately show ?thesis by simp
  next
    case False
    then have "c = 24 \<and> e = 3 \<and> yd = 365" using c e yd365 by linarith
    then have v: "c = 24" "e = 3" "yd = 365" "b = 3" using full by auto
    show ?thesis by (simp add: D_def v)
  qed
  show "(D - 146097 * a - 36524 * b) div 1461 = c"
  proof -
    have "D - 146097 * a - 36524 * b = 1461 * c + (365 * e + yd)" by (simp add: D_def)
    moreover have "0 \<le> 365 * e + yd" "365 * e + yd < 1461"
      using e yd(1) yd365 by linarith+
    ultimately show ?thesis by (simp only: div_cycle)
  qed
  show "(D - 146097 * a - 36524 * b - 1461 * c) div 365
           - (D - 146097 * a - 36524 * b - 1461 * c) div 365 div 4 = e"
  proof (cases "yd < 365")
    case True
    have "D - 146097 * a - 36524 * b - 1461 * c = 365 * e + yd" by (simp add: D_def)
    then have "(D - 146097 * a - 36524 * b - 1461 * c) div 365 = e"
      using True yd(1) by (simp only: div_cycle)
    moreover have "e div 4 = 0" using e by (simp add: div_pos_pos_trivial)
    ultimately show ?thesis by simp
  next
    case False
    then have v: "yd = 365" "e = 3" using yd365 full by auto
    show ?thesis by (simp add: D_def v)
  qed
  show "D - 146097 * a - 36524 * b - 1461 * c - 365 * e = yd"
    by (simp add: D_def)
qed

text \<open>The month and the day of the month from the day of a year without leap day.\<close>

lemma month_of_day:
  fixes lo hi m d :: int
  assumes "31 * (m - 2) \<le> lo" "hi \<le> 31 * m" "lo \<le> d" "d < hi" "1 \<le> m" "0 \<le> lo"
  shows "d div 31 = m - 1 \<or> d div 31 = m - 2 \<and> 2 \<le> m"
proof -
  define q where "q = d div 31"
  define r where "r = d mod 31"
  have i: "d = 31 * q + r" by (simp add: q_def r_def)
  have r: "0 \<le> r" "r < 31" by (simp_all add: r_def)
  have "\<not> q \<le> m - 3" "\<not> m \<le> q" "\<not> q \<le> - 1"
    using assms i r by arith+
  then have "q = m - 1 \<or> q = m - 2 \<and> 2 \<le> m" by linarith
  then show ?thesis by (simp add: q_def)
qed


lemma daysSinceEpoch_eq:
  assumes "Y = year - absoluteZeroYear"
  shows "daysSinceEpoch year =
    146097 * (Y div 400) + 36524 * (Y mod 400 div 100) + 1461 * (Y mod 100 div 4) + 365 * (Y mod 4)"
proof -
  have 1: "Y - 400 * (Y div 400) = Y mod 400" by (simp add: minus_mult_div_eq_mod)
  have 2: "Y mod 400 - 100 * (Y mod 400 div 100) = Y mod 100"
    by (simp add: minus_mult_div_eq_mod mod_mod_cancel)
  have 3: "Y mod 100 - 4 * (Y mod 100 div 4) = Y mod 4"
    by (simp add: minus_mult_div_eq_mod mod_mod_cancel)
  show ?thesis
    unfolding daysSinceEpoch_def Let_def assms [symmetric] 1 2 3
    by (simp add: daysPer400Years_def daysPer100Years_def daysPer4Years_def)
qed


lemma year_shift:
  assumes "Y = year - absoluteZeroYear"
  shows "year mod 4 = (Y + 1) mod 4" "year mod 100 = (Y + 1) mod 100"
    "year mod 400 = (Y + 1) mod 400"
proof -
  have y: "year = (Y + 1) + 4 * (- 73069255600)" "year = (Y + 1) + 100 * (- 2922770224)"
    "year = (Y + 1) + 400 * (- 730692556)"
    using assms by (simp_all add: absoluteZeroYear_def)
  show "year mod 4 = (Y + 1) mod 4" by (subst y(1)) (rule mod_mult_self2)
  show "year mod 100 = (Y + 1) mod 100" by (subst y(2)) (rule mod_mult_self2)
  show "year mod 400 = (Y + 1) mod 400" by (subst y(3)) (rule mod_mult_self2)
qed

lemma isLeap_cycle:
  assumes "Y = year - absoluteZeroYear"
  shows "isLeap year \<longleftrightarrow>
     Y mod 4 = 3 \<and> (Y mod 100 div 4 \<noteq> 24 \<or> Y mod 400 div 100 = 3)"
  unfolding isLeap_def year_shift [OF assms] by (rule leap_shift)

lemma daysPer_values:
  "daysPer400Years = 146097" "daysPer100Years = 36524" "daysPer4Years = 1461"
  by (simp_all add: daysPer400Years_def daysPer100Years_def daysPer4Years_def)

lemma absDate_parts:
  assumes "abs0 div secondsPerDay = D"
    and "D div 146097 = a"
    and "(D - 146097 * a) div 36524 - (D - 146097 * a) div 36524 div 4 = b"
    and "(D - 146097 * a - 36524 * b) div 1461 = c"
    and "(D - 146097 * a - 36524 * b - 1461 * c) div 365
           - (D - 146097 * a - 36524 * b - 1461 * c) div 365 div 4 = e"
    and "D - 146097 * a - 36524 * b - 1461 * c - 365 * e = yd"
    and "400 * a + 100 * b + 4 * c + e + absoluteZeroYear = year"
  shows "absDate abs0 =
     (if isLeap year \<and> yd = 31 + 29 - 1 then (year, 2, 29, yd)
      else
        (let day = (if isLeap year \<and> yd > 31 + 29 - 1 then yd - 1 else yd);
             month = day div 31;
             mend = daysBefore ! nat (month + 1);
             (month, mbegin) = (if day \<ge> mend then (month + 1, mend)
                                else (month, daysBefore ! nat month));
             month = month + 1;
             day = day - mbegin + 1
         in (year, month, day, yd)))"
  unfolding absDate_def Let_def daysPer_values assms ..

lemma month_cases:
  fixes m :: int
  assumes "1 \<le> m" "m \<le> 12"
  obtains "m = 1" | "m = 2" | "m = 3" | "m = 4" | "m = 5" | "m = 6" | "m = 7" | "m = 8"
    | "m = 9" | "m = 10" | "m = 11" | "m = 12"
proof -
  have "m = 1 \<or> m = 2 \<or> m = 3 \<or> m = 4 \<or> m = 5 \<or> m = 6 \<or> m = 7 \<or> m = 8
    \<or> m = 9 \<or> m = 10 \<or> m = 11 \<or> m = 12"
    using assms by presburger
  then show ?thesis using that by blast
qed

lemma daysBefore_bounds:
  assumes "1 \<le> m" "m \<le> 12"
  shows "31 * (m - 2) \<le> daysBefore ! nat (m - 1)" "daysBefore ! nat m \<le> 31 * m"
    "0 \<le> daysBefore ! nat (m - 1)" "daysBefore ! nat (m - 1) < daysBefore ! nat m"
    "daysBefore ! nat m \<le> 365"
proof -
  from assms have "31 * (m - 2) \<le> daysBefore ! nat (m - 1) \<and> daysBefore ! nat m \<le> 31 * m
    \<and> 0 \<le> daysBefore ! nat (m - 1) \<and> daysBefore ! nat (m - 1) < daysBefore ! nat m
    \<and> daysBefore ! nat m \<le> 365"
    by (cases rule: month_cases) (simp_all add: daysBefore_def)
  then show "31 * (m - 2) \<le> daysBefore ! nat (m - 1)" "daysBefore ! nat m \<le> 31 * m"
    "0 \<le> daysBefore ! nat (m - 1)" "daysBefore ! nat (m - 1) < daysBefore ! nat m"
    "daysBefore ! nat m \<le> 365"
    by simp_all
qed

lemma month_from_day:
  assumes m: "1 \<le> m" "m \<le> 12"
    and dd: "daysBefore ! nat (m - 1) \<le> dd" "dd < daysBefore ! nat m"
  shows "(let month = dd div 31;
              mend = daysBefore ! nat (month + 1);
              (month, mbegin) = (if dd \<ge> mend then (month + 1, mend)
                                 else (month, daysBefore ! nat month));
              month = month + 1;
              day = dd - mbegin + 1
          in (year, month, day, yd)) = (year, m, dd - daysBefore ! nat (m - 1) + 1, yd)"
proof -
  note t = daysBefore_bounds [OF m]
  from month_of_day [OF t(1) t(2) dd m(1) t(3)]
  show ?thesis
  proof
    assume q: "dd div 31 = m - 1"
    have "m - 1 + 1 = m" by simp
    then show ?thesis using dd by (simp add: q Let_def)
  next
    assume q: "dd div 31 = m - 2 \<and> 2 \<le> m"
    then have "m - 2 + 1 = m - 1" "m - 1 + 1 = m" by simp_all
    then show ?thesis using dd q by (simp add: Let_def)
  qed
qed

lemma daysIn_eq:
  "daysIn m year =
     (if m = 2 \<and> isLeap year then 29 else daysBefore ! nat m - daysBefore ! nat (m - 1))"
  by (simp add: daysIn_def)

lemma absDate_roundtrip:
  assumes y: "absoluteZeroYear \<le> year" and m: "1 \<le> month" "month \<le> 12"
    and d: "1 \<le> day" "day \<le> daysIn month year" and r: "0 \<le> r" "r < secondsPerDay"
  defines "yd \<equiv> daysBefore ! nat (month - 1) + (if isLeap year \<and> 3 \<le> month then 1 else 0)
                  + (day - 1)"
  shows "absDate ((daysSinceEpoch year + yd) * secondsPerDay + r) = (year, month, day, yd)"
proof -
  define Y where "Y = year - absoluteZeroYear"
  define a where "a = Y div 400"
  define b where "b = Y mod 400 div 100"
  define c where "c = Y mod 100 div 4"
  define e where "e = Y mod 4"
  define lo where "lo = daysBefore ! nat (month - 1)"
  define hi where "hi = daysBefore ! nat month"
  note t = daysBefore_bounds [OF m, folded lo_def hi_def]
  have "0 \<le> Y mod 400" "Y mod 400 < 400" "0 \<le> Y mod 100" "Y mod 100 < 100"
    by simp_all
  then have b: "0 \<le> b" "b < 4" and c: "0 \<le> c" "c < 25"
    unfolding b_def c_def by arith+
  have e: "0 \<le> e" "e < 4"
    unfolding e_def by simp_all
  have Ysum: "400 * a + 100 * b + 4 * c + e + absoluteZeroYear = year"
  proof -
    have "Y mod 100 = Y mod 400 mod 100" "Y mod 4 = Y mod 100 mod 4"
      by (simp_all add: mod_mod_cancel)
    then have "400 * a + 100 * b + 4 * c + e = Y"
      unfolding a_def b_def c_def e_def
      by (metis mult_div_mod_eq add.assoc)
    then show ?thesis by (simp add: Y_def)
  qed
  have leap: "isLeap year \<longleftrightarrow> e = 3 \<and> (c \<noteq> 24 \<or> b = 3)"
    unfolding b_def c_def e_def by (rule isLeap_cycle) (simp add: Y_def)
  have dI: "day \<le> (if month = 2 \<and> isLeap year then 29 else hi - lo)"
    using d(2) unfolding daysIn_eq hi_def lo_def .
  have lo2: "month = 2 \<Longrightarrow> lo = 31" "month = 2 \<Longrightarrow> hi = 59" "3 \<le> month \<Longrightarrow> 59 \<le> lo"
    "month = 1 \<Longrightarrow> hi = 31"
    using m by (cases rule: month_cases; simp add: lo_def hi_def daysBefore_def)+
  have yd: "yd = lo + (if isLeap year \<and> 3 \<le> month then 1 else 0) + (day - 1)"
    by (simp add: yd_def lo_def)
  have yd0: "0 \<le> yd" using t(3) d(1) by (simp add: yd)
  have yd1: "yd \<le> (if e = 3 \<and> (c \<noteq> 24 \<or> b = 3) then 365 else 364)"
    unfolding leap [symmetric]
    using dI t(4) t(5) lo2(1,2) by (auto simp: yd split: if_splits)
  have D: "daysSinceEpoch year + yd = 146097 * a + 36524 * b + 1461 * c + 365 * e + yd"
    unfolding a_def b_def c_def e_def by (simp add: daysSinceEpoch_eq [OF Y_def])
  note f = year_of_days [OF b c e yd0 yd1, of a, folded D]
  have f0: "((daysSinceEpoch year + yd) * secondsPerDay + r) div secondsPerDay =
             daysSinceEpoch year + yd"
    using div_cycle [OF r, of "daysSinceEpoch year + yd"] by (simp add: mult.commute)
  note parts = absDate_parts [OF f0 f(1) f(2) f(3) f(4) f(5) Ysum]
  show ?thesis
  proof (cases "isLeap year \<and> yd = 31 + 29 - 1")
    case True
    moreover have "month = 1 \<or> month = 2 \<or> 3 \<le> month" using m(1) by arith
    ultimately have "month = 2 \<and> day = 29"
      using d(1) dI lo2 t(3) t(4) by (auto simp: yd split: if_splits)
    then show ?thesis unfolding parts using True by simp
  next
    case False
    define dd where "dd = (if isLeap year \<and> yd > 31 + 29 - 1 then yd - 1 else yd)"
    have three: "month = 1 \<or> month = 2 \<or> 3 \<le> month" using m(1) by arith
    have dd: "dd = lo + (day - 1)"
      using three d(1) dI lo2 t(3) t(4) False
      by (auto simp: yd dd_def split: if_splits)
    have "lo \<le> dd" "dd < hi"
      using d(1) dI lo2 False by (auto simp: dd yd split: if_splits)
    then have "(let month = dd div 31;
              mend = daysBefore ! nat (month + 1);
              (month, mbegin) = (if dd \<ge> mend then (month + 1, mend)
                                 else (month, daysBefore ! nat month));
              month = month + 1;
              day = dd - mbegin + 1
          in (year, month, day, yd)) = (year, month, dd - lo + 1, yd)"
      unfolding lo_def hi_def by (rule month_from_day [OF m])
    then show ?thesis
      unfolding parts if_not_P [OF False] Let_def dd_def [symmetric]
      by (simp add: dd)
  qed
qed

subsection \<open>Parsing\<close>

lemma digitVal_range: "is09 c \<Longrightarrow> 0 \<le> digitVal c \<and> digitVal c \<le> 9"
  by (auto simp: is09_def digitVal_def)

lemma is09_not_sign:
  "is09 c \<Longrightarrow> c \<noteq> CHR ''-'' \<and> c \<noteq> CHR ''+'' \<and> c \<noteq> CHR ''.'' \<and> c \<noteq> CHR '',''"
  by (auto simp: is09_def)

lemma getnum_two:
  "is09 a \<Longrightarrow> is09 b \<Longrightarrow> getnum (a # b # rest) fixed = Some (10 * digitVal a + digitVal b, rest)"
  by (simp add: getnum_def isDigit_def)

lemma atoi_four:
  assumes "is09 a" "is09 b" "is09 c" "is09 d"
  shows "atoi [a, b, c, d] =
           Some (1000 * digitVal a + 100 * digitVal b + 10 * digitVal c + digitVal d)"
proof -
  note r = digitVal_range [OF assms(1)] digitVal_range [OF assms(2)]
    digitVal_range [OF assms(3)] digitVal_range [OF assms(4)]
  have s: "a \<noteq> CHR ''-''" "a \<noteq> CHR ''+''" using is09_not_sign [OF assms(1)] by auto
  have v: "int (of_char x) - 48 = digitVal x" for x by (simp add: digitVal_def)
  show ?thesis
    using assms r s
    by (simp add: atoi_def Let_def v add_diff_eq [symmetric] diff_add_eq [symmetric])
qed

lemma length_15:
  "length s = 15 \<Longrightarrow>
     \<exists>c0 c1 c2 c3 c4 c5 c6 c7 c8 c9 c10 c11 c12 c13 c14.
       s = [c0, c1, c2, c3, c4, c5, c6, c7, c8, c9, c10, c11, c12, c13, c14]"
  by (auto simp: numeral_eq_Suc length_Suc_conv)

text \<open>A text of the right shape parses to its components, or is out of range; what
  follows the fifteen characters may be a fraction of a second.\<close>

lemma ParseInLocation_prefix:
  assumes "validDT_MatchString body"
  shows "ParseInLocation (body @ rest) l =
     (if ts_month body \<le> 0 \<or> 12 < ts_month body then Inl (errRange ''month'')
      else if 24 \<le> ts_hour body then Inl (errRange ''hour'')
      else if 60 \<le> ts_minute body then Inl (errRange ''minute'')
      else if 60 \<le> ts_second body then Inl (errRange ''second'')
      else case (if length rest \<ge> 2 \<and> commaOrPeriod (rest ! 0) \<and> isDigit rest 1 then
                   (let n = 2 + length (takeWhile is09 (drop 2 rest)) in
                    case parseNanoseconds rest n of
                      Inl e \<Rightarrow> Inl e
                    | Inr nsec \<Rightarrow> Inr (nsec, drop n rest))
                 else Inr (0, rest)) of
        Inl e \<Rightarrow> Inl e
      | Inr (nsec, value) \<Rightarrow>
          if length value \<noteq> 0 then Inl (errExtraText value)
          else if ts_day body < 1 \<or> ts_day body > daysIn (ts_month body) (ts_year body)
          then Inl errDayOutOfRange
          else Inr (Date (ts_year body) (ts_month body) (ts_day body) (ts_hour body)
                      (ts_minute body) (ts_second body) nsec l))"
proof -
  from assms have "length body = 15" by (simp add: validDT_MatchString_def)
  then obtain c0 c1 c2 c3 c4 c5 c6 c7 c8 c9 c10 c11 c12 c13 c14
    where s: "body = [c0, c1, c2, c3, c4, c5, c6, c7, c8, c9, c10, c11, c12, c13, c14]"
    by (auto dest!: length_15)
  have d: "is09 c0" "is09 c1" "is09 c2" "is09 c3" "is09 c4" "is09 c5" "is09 c6" "is09 c7"
    "c8 = CHR ''.''" "is09 c9" "is09 c10" "is09 c11" "is09 c12" "is09 c13" "is09 c14"
    using assms by (simp_all add: validDT_MatchString_def s)
  note r = d(10,12,14) [THEN digitVal_range] d(11,13,15) [THEN digitVal_range]
  show ?thesis
    using d r
    by (simp add: ParseInLocation_def s isDigit_def atoi_four getnum_two
          ts_year_def ts_month_def ts_day_def ts_hour_def ts_minute_def ts_second_def
          decimal_def split: sum.splits)
qed

lemma ParseInLocation_shape:
  assumes "validDT_MatchString s"
  shows "ParseInLocation s l =
     (if ts_month s \<le> 0 \<or> 12 < ts_month s then Inl (errRange ''month'')
      else if 24 \<le> ts_hour s then Inl (errRange ''hour'')
      else if 60 \<le> ts_minute s then Inl (errRange ''minute'')
      else if 60 \<le> ts_second s then Inl (errRange ''second'')
      else if ts_day s < 1 \<or> ts_day s > daysIn (ts_month s) (ts_year s) then Inl errDayOutOfRange
      else Inr (Date (ts_year s) (ts_month s) (ts_day s) (ts_hour s) (ts_minute s)
                  (ts_second s) 0 l))"
  using ParseInLocation_prefix [OF assms, of "[]" l] by simp

lemma decimal_two: "decimal [a, b] = 10 * digitVal a + digitVal b"
  by (simp add: decimal_def)

lemma ts_fields_nonneg:
  assumes "validDT_MatchString s"
  shows "0 \<le> ts_year s" "0 \<le> ts_month s" "0 \<le> ts_day s" "0 \<le> ts_hour s"
    "0 \<le> ts_minute s" "0 \<le> ts_second s"
proof -
  from assms have "length s = 15" by (simp add: validDT_MatchString_def)
  then obtain c0 c1 c2 c3 c4 c5 c6 c7 c8 c9 c10 c11 c12 c13 c14
    where s: "s = [c0, c1, c2, c3, c4, c5, c6, c7, c8, c9, c10, c11, c12, c13, c14]"
    by (auto dest!: length_15)
  have d: "is09 c0" "is09 c1" "is09 c2" "is09 c3" "is09 c4" "is09 c5" "is09 c6" "is09 c7"
    "is09 c9" "is09 c10" "is09 c11" "is09 c12" "is09 c13" "is09 c14"
    using assms by (simp_all add: validDT_MatchString_def s)
  note r = d [THEN digitVal_range]
  show "0 \<le> ts_year s" "0 \<le> ts_month s" "0 \<le> ts_day s" "0 \<le> ts_hour s"
    "0 \<le> ts_minute s" "0 \<le> ts_second s"
    using r
    by (simp_all add: s ts_year_def ts_month_def ts_day_def ts_hour_def ts_minute_def
          ts_second_def decimal_def)
qed

lemma isLeap_leap_year: "isLeap y = leap_year y"
proof -
  have "y mod 4 = y mod 400 mod 4" by (simp add: mod_mod_cancel)
  then have "y mod 400 = 0 \<Longrightarrow> y mod 4 = 0" by simp
  then show ?thesis by (auto simp: isLeap_def leap_year_def)
qed

lemma daysIn_days_in_month:
  assumes "1 \<le> m" "m \<le> 12"
  shows "daysIn m y = days_in_month y m"
  using assms
  by (cases rule: month_cases)
     (simp_all add: daysIn_def days_in_month_def daysBefore_def isLeap_leap_year)

subsection \<open>Date and the accessors\<close>

text \<open>The seconds since the absolute epoch of a date and time within range.\<close>

lemma norm_id: "0 \<le> lo \<Longrightarrow> lo < base \<Longrightarrow> norm hi lo base = (hi, lo)"
  by (simp add: norm_def)

lemma lookup_cases:
  obtains offset start zend where "lookup l sec = (offset, start, zend)"
  by (cases "lookup l sec") auto

lemma Date_wall:
  fixes year month day hour minute sec :: int
  assumes m: "1 \<le> month" "month \<le> 12"
    and h: "0 \<le> hour" "hour < 24" and mi: "0 \<le> minute" "minute < 60"
    and se: "0 \<le> sec" "sec < 60"
  defines "wall \<equiv> (daysSinceEpoch year
                      + (daysBefore ! nat (month - 1)
                         + (if isLeap year \<and> 3 \<le> month then 1 else 0) + (day - 1)))
                    * secondsPerDay
                    + (hour * secondsPerHour + minute * secondsPerMinute + sec)
                    + (absoluteToInternal + internalToUnix)"
  shows "Date year month day hour minute sec 0 l =
     (case lookup l wall of
        (offset, start, zend) \<Rightarrow>
          \<lparr>t_unix = (if offset \<noteq> 0 then
                       wall - (if wall - offset < start \<or> wall - offset \<ge> zend
                               then fst (lookup l (wall - offset)) else offset)
                     else wall),
           t_nsec = 0, t_loc = l\<rparr>)"
proof -
  have n: "norm year (month - 1) 12 = (year, month - 1)"
    "norm sec 0 1000000000 = (sec, 0)" "norm minute sec 60 = (minute, sec)"
    "norm hour minute 60 = (hour, minute)" "norm day hour 24 = (day, hour)"
    using m h mi se by (simp_all add: norm_id)
  have mm: "month - 1 + 1 = month" by simp
  have a: "(if isLeap year \<and> 3 \<le> month
            then daysSinceEpoch year + daysBefore ! nat (month - 1) + 1
            else daysSinceEpoch year + daysBefore ! nat (month - 1)) + (day - 1)
           = daysSinceEpoch year
               + (daysBefore ! nat (month - 1)
                  + (if isLeap year \<and> 3 \<le> month then 1 else 0) + (day - 1))"
    by simp
  show ?thesis
    unfolding Date_def Let_def n prod.case mm a wall_def [symmetric] ..
qed

lemma Date_selected:
  fixes year month day hour minute sec :: int
  assumes m: "1 \<le> month" "month \<le> 12"
    and h: "0 \<le> hour" "hour < 24" and mi: "0 \<le> minute" "minute < 60"
    and se: "0 \<le> sec" "sec < 60"
  defines "wall \<equiv> (daysSinceEpoch year
                      + (daysBefore ! nat (month - 1)
                         + (if isLeap year \<and> 3 \<le> month then 1 else 0) + (day - 1)))
                    * secondsPerDay
                    + (hour * secondsPerHour + minute * secondsPerMinute + sec)
                    + (absoluteToInternal + internalToUnix)"
  shows "Date year month day hour minute sec 0 l =
           \<lparr>t_unix = wall - selected_offset l wall, t_nsec = 0, t_loc = l\<rparr>"
proof -
  obtain offset start zend where lw: "lookup l wall = (offset, start, zend)"
    by (rule lookup_cases)
  show ?thesis
    unfolding Date_wall [OF m h mi se] wall_def [symmetric] selected_offset_def lw
    by (simp add: Let_def)
qed

lemma steady_offset_in_force: "steady l wall \<Longrightarrow> offset_in_force l wall"
proof -
  assume st: "steady l wall"
  obtain offset start zend where lw: "lookup l wall = (offset, start, zend)"
    by (rule lookup_cases)
  have st': "fst (lookup l (wall - offset)) = offset"
    using st by (simp add: steady_def lw)
  have "selected_offset l wall = offset"
    by (simp add: selected_offset_def lw Let_def st')
  then show ?thesis by (simp add: offset_in_force_def st')
qed

lemma Date_absSec:
  fixes year month day hour minute sec :: int
  assumes m: "1 \<le> month" "month \<le> 12"
    and h: "0 \<le> hour" "hour < 24" and mi: "0 \<le> minute" "minute < 60"
    and se: "0 \<le> sec" "sec < 60"
  defines "abs0 \<equiv> (daysSinceEpoch year
                      + (daysBefore ! nat (month - 1)
                         + (if isLeap year \<and> 3 \<le> month then 1 else 0) + (day - 1)))
                    * secondsPerDay
                    + (hour * secondsPerHour + minute * secondsPerMinute + sec)"
  assumes st: "offset_in_force l (abs0 + (absoluteToInternal + internalToUnix))"
  shows "absSec (Date year month day hour minute sec 0 l) = abs0"
proof -
  define wall where "wall = abs0 + (absoluteToInternal + internalToUnix)"
  define offset where "offset = selected_offset l wall"
  have st': "fst (lookup l (wall - offset)) = offset"
    using st by (simp add: offset_in_force_def wall_def [symmetric] offset_def)
  have D: "Date year month day hour minute sec 0 l =
             \<lparr>t_unix = wall - offset, t_nsec = 0, t_loc = l\<rparr>"
    unfolding Date_selected [OF m h mi se] abs0_def [symmetric] wall_def [symmetric]
      offset_def ..
  have c: "absoluteToInternal + internalToUnix + (unixToInternal + internalToAbsolute) = 0"
    by (simp add: internalToUnix_def internalToAbsolute_def)
  obtain o' s' z' where l2: "lookup l (wall - offset) = (o', s', z')"
    by (rule lookup_cases)
  have o': "o' = offset" using st' by (simp add: l2)
  have "absSec (Date year month day hour minute sec 0 l) =
          wall - offset + o' + (unixToInternal + internalToAbsolute)"
    by (simp add: D absSec_def Let_def l2)
  then show "absSec (Date year month day hour minute sec 0 l) = abs0"
    using c o' by (simp add: wall_def)
qed

lemma mod_cycle: "0 \<le> r \<Longrightarrow> r < k \<Longrightarrow> (k * q + r) mod k = (r::int)"
  by (simp add: mod_pos_pos_trivial)

lemma Date_fields:
  fixes year month day hour minute sec :: int
  assumes y: "absoluteZeroYear \<le> year" and m: "1 \<le> month" "month \<le> 12"
    and d: "1 \<le> day" "day \<le> daysIn month year"
    and h: "0 \<le> hour" "hour < 24" and mi: "0 \<le> minute" "minute < 60"
    and se: "0 \<le> sec" "sec < 60"
    and st: "offset_in_force l ((daysSinceEpoch year
                      + (daysBefore ! nat (month - 1)
                         + (if isLeap year \<and> 3 \<le> month then 1 else 0) + (day - 1)))
                    * secondsPerDay
                    + (hour * secondsPerHour + minute * secondsPerMinute + sec)
                    + (absoluteToInternal + internalToUnix))"
  defines "t \<equiv> Date year month day hour minute sec 0 l"
  shows "Year t = year" "Month t = month" "Day t = day"
    "Hour t = hour" "Minute t = minute" "Second t = sec"
proof -
  define yd where "yd = daysBefore ! nat (month - 1)
                         + (if isLeap year \<and> 3 \<le> month then 1 else 0) + (day - 1)"
  define r where "r = hour * secondsPerHour + minute * secondsPerMinute + sec"
  define D where "D = daysSinceEpoch year + yd"
  have k: "secondsPerMinute = 60" "secondsPerHour = 3600" "secondsPerDay = 86400"
    by (simp_all add: secondsPerMinute_def secondsPerHour_def secondsPerDay_def)
  have r: "0 \<le> r" "r < secondsPerDay"
    using h mi se by (simp_all add: r_def k)
  have a: "absSec t = D * secondsPerDay + r"
    unfolding t_def D_def yd_def r_def by (rule Date_absSec [OF m h mi se st])
  have "absDate (absSec t) = (year, month, day, yd)"
    unfolding a D_def yd_def by (rule absDate_roundtrip [OF y m d r])
  then show "Year t = year" "Month t = month" "Day t = day"
    by (simp_all add: Year_def Month_def Day_def)
  have r1: "0 \<le> 60 * minute + sec" "60 * minute + sec < 3600"
    using mi se by linarith+
  have "absSec t = 86400 * D + r" by (simp add: a k)
  then have "absSec t mod 86400 = r" using r by (simp only: mod_cycle k)
  moreover have "r = 3600 * hour + (60 * minute + sec)" by (simp add: r_def k)
  ultimately show "Hour t = hour"
    using r1 by (simp only: Hour_def k div_cycle)
  have "absSec t = 3600 * (24 * D + hour) + (60 * minute + sec)" by (simp add: a k r_def)
  then have "absSec t mod 3600 = 60 * minute + sec" using r1 by (simp only: mod_cycle)
  then show "Minute t = minute"
    using se by (simp only: Minute_def k div_cycle)
  have "absSec t = 60 * (1440 * D + 60 * hour + minute) + sec" by (simp add: a k r_def)
  then show "Second t = sec"
    using se by (simp only: Second_def k mod_cycle)
qed

text \<open>
  For the years \<open>0\<close> to \<open>9999\<close> the seconds since the absolute epoch fit an unsigned
  64-bit integer and the Unix seconds a signed one: Go's wrapping arithmetic gives the
  exact values that the model computes.
\<close>

lemma Date_within_64_bits:
  fixes year month day hour minute sec :: int
  assumes y: "0 \<le> year" "year \<le> 9999" and m: "1 \<le> month" "month \<le> 12"
    and d: "1 \<le> day" "day \<le> 31"
    and h: "0 \<le> hour" "hour < 24" and mi: "0 \<le> minute" "minute < 60"
    and se: "0 \<le> sec" "sec < 60"
  defines "abs0 \<equiv> (daysSinceEpoch year
                      + (daysBefore ! nat (month - 1)
                         + (if isLeap year \<and> 3 \<le> month then 1 else 0) + (day - 1)))
                    * secondsPerDay
                    + (hour * secondsPerHour + minute * secondsPerMinute + sec)"
  shows "0 \<le> abs0" "abs0 < 2 ^ 64"
    "- (2 ^ 63) \<le> abs0 + (absoluteToInternal + internalToUnix)"
    "abs0 + (absoluteToInternal + internalToUnix) < 2 ^ 63"
proof -
  define Y where "Y = year - absoluteZeroYear"
  have Y: "292277022399 \<le> Y" "Y \<le> 292277032398"
    using y by (simp_all add: Y_def absoluteZeroYear_def)
  have "292277022399 div 400 \<le> Y div 400" "Y div 400 \<le> 292277032398 div 400"
    using Y by (simp_all only: zdiv_mono1)
  then have a: "730692555 \<le> Y div 400" "Y div 400 \<le> 730692580" by simp_all
  have "0 \<le> Y mod 400" "Y mod 400 < 400" "0 \<le> Y mod 100" "Y mod 100 < 100" by simp_all
  then have b: "0 \<le> Y mod 400 div 100" "Y mod 400 div 100 \<le> 3"
    and c: "0 \<le> Y mod 100 div 4" "Y mod 100 div 4 \<le> 24"
    by arith+
  have e: "0 \<le> Y mod 4" "Y mod 4 \<le> 3" by simp_all
  note t = daysBefore_bounds [OF m]
  define D where "D = daysSinceEpoch year
                      + (daysBefore ! nat (month - 1)
                         + (if isLeap year \<and> 3 \<le> month then 1 else 0) + (day - 1))"
  define adj :: int where "adj = (if isLeap year \<and> 3 \<le> month then 1 else 0)"
  have adj: "0 \<le> adj" "adj \<le> 1" by (simp_all add: adj_def)
  have "D = 146097 * (Y div 400) + 36524 * (Y mod 400 div 100) + 1461 * (Y mod 100 div 4)
            + 365 * (Y mod 4) + (daysBefore ! nat (month - 1) + adj + (day - 1))"
    unfolding D_def adj_def daysSinceEpoch_eq [OF Y_def] ..
  then have D: "106751990207835 \<le> D" "D \<le> 106751994006386"
    using a b c e t(3) t(4) t(5) d adj by linarith+
  define r where "r = hour * secondsPerHour + minute * secondsPerMinute + sec"
  have r: "0 \<le> r" "r < 86400"
    using h mi se by (simp_all add: r_def secondsPerHour_def secondsPerMinute_def)
  have abs0: "abs0 = D * 86400 + r"
    by (simp add: abs0_def D_def r_def secondsPerDay_def secondsPerHour_def secondsPerMinute_def)
  have k: "absoluteToInternal + internalToUnix = - 9223372028715321600"
    by (simp add: absoluteToInternal_def internalToUnix_def unixToInternal_def
          secondsPerDay_def secondsPerHour_def secondsPerMinute_def)
  show "0 \<le> abs0" "abs0 < 2 ^ 64"
    "- (2 ^ 63) \<le> abs0 + (absoluteToInternal + internalToUnix)"
    "abs0 + (absoluteToInternal + internalToUnix) < 2 ^ 63"
    using D r unfolding abs0 k by simp_all
qed

lemma lookup_UTC: "lookup UTC sec = (0, alpha, omega)"
  by (simp add: lookup_def UTC_def)

lemma steady_no_transitions: "zoneTrans l = [] \<Longrightarrow> steady l wall"
  by (simp add: steady_def lookup_def)

text \<open>
  C2, as the program behaves. A text of fifteen characters, eight digits, a period and
  six digits, whose components are a date of the calendar and a time of day, is parsed by
  \<open>createDate\<close> without error, to an instant \<open>t\<close> of the local zone with no fraction of a
  second. Let \<open>u\<close> be the instant that the same text denotes in UTC, so that \<open>t_unix u\<close>
  is the wall-clock reading of the text taken as a Unix time. If the offset that
  \<^verbatim>\<open>time.Date\<close> selects for this reading is in force in the local zone at the instant it
  leads to, then the year, month, day, hour, minute and second of \<open>t\<close> are the components
  of the text. That is so whenever the local zone is steady at the reading (no transition
  between the reading taken as a Unix time and the instant it denotes), and always in a
  zone that has no transition at all.
\<close>

theorem createDate_valid:
  assumes "validDT_MatchString s" and "valid_calendar s"
  shows "\<exists>t u. createDate local s = Inr t \<and> createDate UTC s = Inr u
           \<and> t_nsec t = 0 \<and> t_loc t = local
           \<and> (offset_in_force local (t_unix u) \<or> steady local (t_unix u)
                \<or> zoneTrans local = [] \<longrightarrow>
                Year t = ts_year s \<and> Month t = ts_month s \<and> Day t = ts_day s
                \<and> Hour t = ts_hour s \<and> Minute t = ts_minute s \<and> Second t = ts_second s)"
proof -
  note nn = ts_fields_nonneg [OF assms(1)]
  have v: "1 \<le> ts_month s" "ts_month s \<le> 12" "1 \<le> ts_day s"
    "ts_day s \<le> days_in_month (ts_year s) (ts_month s)"
    "ts_hour s < 24" "ts_minute s < 60" "ts_second s < 60"
    using assms(2) by (simp_all add: valid_calendar_def)
  have dI: "ts_day s \<le> daysIn (ts_month s) (ts_year s)"
    using v(4) by (simp add: daysIn_days_in_month [OF v(1,2)])
  have y: "absoluteZeroYear \<le> ts_year s" using nn(1) by (simp add: absoluteZeroYear_def)
  define wall where "wall = (daysSinceEpoch (ts_year s)
                      + (daysBefore ! nat (ts_month s - 1)
                         + (if isLeap (ts_year s) \<and> 3 \<le> ts_month s then 1 else 0)
                         + (ts_day s - 1)))
                    * secondsPerDay
                    + (ts_hour s * secondsPerHour + ts_minute s * secondsPerMinute + ts_second s)
                    + (absoluteToInternal + internalToUnix)"
  define t where
    "t = Date (ts_year s) (ts_month s) (ts_day s) (ts_hour s) (ts_minute s) (ts_second s) 0 local"
  define u where
    "u = Date (ts_year s) (ts_month s) (ts_day s) (ts_hour s) (ts_minute s) (ts_second s) 0 UTC"
  have p: "createDate l s =
             Inr (Date (ts_year s) (ts_month s) (ts_day s) (ts_hour s) (ts_minute s)
                    (ts_second s) 0 l)" for l
    using v dI by (simp add: createDate_def ParseInLocation_shape [OF assms(1)])
  note w = Date_selected [OF v(1,2) nn(4) v(5) nn(5) v(6) nn(6) v(7), of "ts_year s" "ts_day s",
      folded wall_def]
  have uu: "t_unix u = wall"
    by (simp add: u_def w selected_offset_def lookup_UTC)
  have tt: "t_nsec t = 0" "t_loc t = local"
    by (simp_all add: t_def w)
  have f: "Year t = ts_year s \<and> Month t = ts_month s \<and> Day t = ts_day s
           \<and> Hour t = ts_hour s \<and> Minute t = ts_minute s \<and> Second t = ts_second s"
    if "offset_in_force local wall"
    using Date_fields [OF y v(1,2,3) dI nn(4) v(5) nn(5) v(6) nn(6) v(7)
        that [unfolded wall_def]]
    by (simp add: t_def)
  have "offset_in_force local (t_unix u) \<or> steady local (t_unix u)
                \<or> zoneTrans local = [] \<longrightarrow>
                Year t = ts_year s \<and> Month t = ts_month s \<and> Day t = ts_day s
                \<and> Hour t = ts_hour s \<and> Minute t = ts_minute s \<and> Second t = ts_second s"
    using f steady_no_transitions [of local wall] steady_offset_in_force [of local wall]
    by (auto simp: uu)
  then show ?thesis
    using p [of local] p [of UTC] tt unfolding t_def [symmetric] u_def [symmetric] by blast
qed

theorem createDate_valid_witness:
  "validDT_MatchString ''20240229.120000'' \<and> valid_calendar ''20240229.120000''
   \<and> (\<exists>t. createDate NewYork ''20240229.120000'' = Inr t
         \<and> Year t = 2024 \<and> Month t = 2 \<and> Day t = 29
         \<and> Hour t = 12 \<and> Minute t = 0 \<and> Second t = 0)
   \<and> (\<exists>t. createDate UTC ''20210329.143025'' = Inr t
         \<and> Year t = 2021 \<and> Month t = 3 \<and> Day t = 29
         \<and> Hour t = 14 \<and> Minute t = 30 \<and> Second t = 25)
   \<and> (\<exists>t. createDate NewYork ''20210314.033000'' = Inr t
         \<and> Year t = 2021 \<and> Month t = 3 \<and> Day t = 14
         \<and> Hour t = 3 \<and> Minute t = 30 \<and> Second t = 0)"
proof -
  have a: "validDT_MatchString ''20240229.120000''" "valid_calendar ''20240229.120000''"
    "validDT_MatchString ''20210329.143025''" "valid_calendar ''20210329.143025''"
    "validDT_MatchString ''20210314.033000''" "valid_calendar ''20210314.033000''"
    by code_simp+
  have u: "createDate UTC ''20240229.120000'' =
             Inr \<lparr>t_unix = 1709208000, t_nsec = 0, t_loc = UTC\<rparr>"
    "createDate UTC ''20210314.033000'' =
             Inr \<lparr>t_unix = 1615692600, t_nsec = 0, t_loc = UTC\<rparr>"
    by code_simp+
  have s: "steady NewYork 1709208000" "offset_in_force NewYork 1615692600"
    by code_simp+
  have z: "zoneTrans UTC = []" by (simp add: UTC_def)
  have f: "ts_year ''20240229.120000'' = 2024" "ts_month ''20240229.120000'' = 2"
    "ts_day ''20240229.120000'' = 29" "ts_hour ''20240229.120000'' = 12"
    "ts_minute ''20240229.120000'' = 0" "ts_second ''20240229.120000'' = 0"
    "ts_year ''20210329.143025'' = 2021" "ts_month ''20210329.143025'' = 3"
    "ts_day ''20210329.143025'' = 29" "ts_hour ''20210329.143025'' = 14"
    "ts_minute ''20210329.143025'' = 30" "ts_second ''20210329.143025'' = 25"
    "ts_year ''20210314.033000'' = 2021" "ts_month ''20210314.033000'' = 3"
    "ts_day ''20210314.033000'' = 14" "ts_hour ''20210314.033000'' = 3"
    "ts_minute ''20210314.033000'' = 30" "ts_second ''20210314.033000'' = 0"
    by code_simp+
  show ?thesis
    using createDate_valid [OF a(1,2), of NewYork] createDate_valid [OF a(3,4), of UTC]
      createDate_valid [OF a(5,6), of NewYork] a u s z
    by (auto simp: f)
qed

text \<open>
  C2, as the specification states it, fails where the local zone skips the wall-clock
  time: on March 14, 2021 the clocks in New York went from 02:00 to 03:00, and the text
  for 02:30:00 of that day parses to an instant whose hour is 1.
\<close>

theorem createDate_skipped_wall_clock:
  "validDT_MatchString ''20210314.023000'' \<and> valid_calendar ''20210314.023000''
   \<and> ts_hour ''20210314.023000'' = 2
   \<and> (\<exists>t. createDate NewYork ''20210314.023000'' = Inr t \<and> Hour t = 1)"
proof -
  have "validDT_MatchString ''20210314.023000''" "valid_calendar ''20210314.023000''"
    "ts_hour ''20210314.023000'' = 2"
    by code_simp+
  moreover have "createDate NewYork ''20210314.023000'' =
      Inr \<lparr>t_unix = 1615703400, t_nsec = 0, t_loc = NewYork\<rparr>"
    by code_simp
  moreover have "Hour \<lparr>t_unix = 1615703400, t_nsec = 0, t_loc = NewYork\<rparr> = 1"
    by code_simp
  ultimately show ?thesis by simp
qed

subsection \<open>What createDate rejects\<close>

lemma leadingInt_all: "leadingInt x cs = Some (q, []) \<Longrightarrow> list_all is09 cs"
  by (induction cs arbitrary: x) (auto simp: Let_def split: if_splits)

lemma atoi_digits:
  assumes "atoi cs = Some y" and "cs \<noteq> []" and "is09 (cs ! 0)"
  shows "list_all is09 cs"
proof -
  have "cs ! 0 \<noteq> CHR ''-''" "cs ! 0 \<noteq> CHR ''+''"
    using is09_not_sign [OF assms(3)] by auto
  then have "atoi cs = (case leadingInt 0 cs of
           None \<Rightarrow> None
         | Some (q, rem) \<Rightarrow> if length rem > 0 then None else Some q)"
    by (simp add: atoi_def Let_def split: option.splits)
  then show ?thesis
    using assms(1) leadingInt_all [of 0 cs]
    by (auto split: option.splits if_splits)
qed

lemma getnum_True_inv:
  assumes "getnum v True = Some (n, v')"
  shows "\<exists>a b. v = a # b # v' \<and> is09 a \<and> is09 b"
proof -
  from assms have "isDigit v 0" "isDigit v 1" "v' = drop 2 v"
    by (auto simp: getnum_def split: if_splits)
  then show ?thesis
    by (cases v; cases "tl v") (auto simp: isDigit_def)
qed

lemma getnum_False_inv:
  assumes "getnum v False = Some (n, v')"
  shows "(\<exists>a b. v = a # b # v' \<and> is09 a \<and> is09 b)
       \<or> (\<exists>a. v = a # v' \<and> is09 a \<and> \<not> isDigit v' 0)"
proof -
  from assms have "isDigit v 0" "isDigit v 1 \<and> v' = drop 2 v \<or> \<not> isDigit v 1 \<and> v' = drop 1 v"
    by (auto simp: getnum_def split: if_splits)
  then show ?thesis
    by (cases v; cases "tl v") (auto simp: isDigit_def split: if_splits)
qed

lemma ParseInLocation_Inr_steps:
  assumes "ParseInLocation s l = Inr t"
  obtains year month v2 day v3 hour v5 minute v6 sec v7 where
    "4 \<le> length s" "isDigit s 0" "atoi (take 4 s) = Some year"
    "getnum (drop 4 s) True = Some (month, v2)" "getnum v2 True = Some (day, v3)"
    "v3 \<noteq> []" "v3 ! 0 = CHR ''.''" "getnum (drop 1 v3) False = Some (hour, v5)"
    "getnum v5 True = Some (minute, v6)" "getnum v6 True = Some (sec, v7)"
  using assms
  by (auto simp: ParseInLocation_def Let_def split: if_splits option.splits prod.splits)

lemma ParseInLocation_Inr_shape:
  assumes "ParseInLocation s l = Inr t"
  obtains body rest where "s = body @ rest" "validDT_MatchString body"
proof -
  from assms obtain year month v2 day v3 hour v5 minute v6 sec v7 where
    1: "4 \<le> length s" "isDigit s 0" and 2: "atoi (take 4 s) = Some year"
    and 3: "getnum (drop 4 s) True = Some (month, v2)" and 4: "getnum v2 True = Some (day, v3)"
    and 5: "v3 \<noteq> []" "v3 ! 0 = CHR ''.''" and 6: "getnum (drop 1 v3) False = Some (hour, v5)"
    and 7: "getnum v5 True = Some (minute, v6)" and 8: "getnum v6 True = Some (sec, v7)"
    by (rule ParseInLocation_Inr_steps)
  from 1 have "take 4 s \<noteq> []" "is09 (take 4 s ! 0)"
    by (auto simp: isDigit_def split: if_splits)
  from atoi_digits [OF 2 this] have y: "list_all is09 (take 4 s)" .
  from getnum_True_inv [OF 3] obtain c4 c5 where
    m: "drop 4 s = c4 # c5 # v2" "is09 c4" "is09 c5" by blast
  from getnum_True_inv [OF 4] obtain c6 c7 where
    d: "v2 = c6 # c7 # v3" "is09 c6" "is09 c7" by blast
  from 5 obtain v4 where p: "v3 = CHR ''.'' # v4" by (cases v3) auto
  from getnum_True_inv [OF 7] obtain c11 c12 where
    mi: "v5 = c11 # c12 # v6" "is09 c11" "is09 c12" by blast
  then have "isDigit v5 0" by (simp add: isDigit_def)
  with getnum_False_inv [OF 6] obtain c9 c10 where
    h: "v4 = c9 # c10 # v5" "is09 c9" "is09 c10" by (auto simp: p)
  from getnum_True_inv [OF 8] obtain c13 c14 where
    se: "v6 = c13 # c14 # v7" "is09 c13" "is09 c14" by blast
  define body where
    "body = take 4 s @ [c4, c5, c6, c7, CHR ''.'', c9, c10, c11, c12, c13, c14]"
  have "s = take 4 s @ drop 4 s" by simp
  then have s: "s = body @ v7"
    unfolding body_def m d p h mi se by simp
  have "length (take 4 s) = 4" using 1 by simp
  then have "validDT_MatchString body"
    using y m d h mi se
    by (simp add: validDT_MatchString_def body_def nth_append)
  with s show ?thesis by (rule that)
qed

lemma takeWhile_all: "length xs \<le> length (takeWhile P xs) \<Longrightarrow> list_all P xs"
proof -
  assume "length xs \<le> length (takeWhile P xs)"
  then have "length (takeWhile P xs) = length xs"
    using length_takeWhile_le [of P xs] by simp
  then have "takeWhile P xs = xs"
    by (metis takeWhile_eq_take take_all order_refl)
  then show ?thesis by (simp add: takeWhile_eq_all_conv list_all_iff)
qed

text \<open>What follows the fifteen characters of an accepted text.\<close>

lemma fraction_accepted:
  assumes "(if length rest \<ge> 2 \<and> commaOrPeriod (rest ! 0) \<and> isDigit rest 1 then
                   (let n = 2 + length (takeWhile is09 (drop 2 rest)) in
                    case parseNanoseconds rest n of
                      Inl e \<Rightarrow> Inl e
                    | Inr nsec \<Rightarrow> Inr (nsec, drop n rest))
                 else Inr (0, rest)) = Inr (nsec, [])"
  shows "rest = [] \<or> fraction_suffix rest"
proof (cases "length rest \<ge> 2 \<and> commaOrPeriod (rest ! 0) \<and> isDigit rest 1")
  case False
  show ?thesis using assms unfolding if_not_P [OF False] by simp
next
  case True
  have "drop (2 + length (takeWhile is09 (drop 2 rest))) rest = []"
    using assms unfolding if_P [OF True] by (simp add: Let_def split: sum.splits)
  then have "length (drop 2 rest) \<le> length (takeWhile is09 (drop 2 rest))"
    by simp
  then have "list_all is09 (drop 2 rest)" by (rule takeWhile_all)
  moreover have "is09 (rest ! 1)" using True by (simp add: isDigit_def split: if_splits)
  moreover have "drop 1 rest = rest ! 1 # drop 2 rest"
    using True by (metis Cons_nth_drop_Suc One_nat_def Suc_1 Suc_le_lessD)
  ultimately show ?thesis using True by (simp add: fraction_suffix_def)
qed

lemma createDate_Inr_valid:
  assumes "createDate local s = Inr t"
  shows "validDT_MatchString (take 15 s) \<and> valid_calendar (take 15 s)
         \<and> (drop 15 s = [] \<or> fraction_suffix (drop 15 s))"
proof -
  from assms have p: "ParseInLocation s local = Inr t" by (simp add: createDate_def)
  then obtain body rest where s: "s = body @ rest" and b: "validDT_MatchString body"
    by (rule ParseInLocation_Inr_shape)
  from b have l: "length body = 15" by (simp add: validDT_MatchString_def)
  note nn = ts_fields_nonneg [OF b]
  from p [unfolded s ParseInLocation_prefix [OF b]]
  obtain nsec where
    r: "1 \<le> ts_month body" "ts_month body \<le> 12" "ts_hour body < 24" "ts_minute body < 60"
      "ts_second body < 60" "1 \<le> ts_day body"
      "ts_day body \<le> daysIn (ts_month body) (ts_year body)"
    and f: "(if length rest \<ge> 2 \<and> commaOrPeriod (rest ! 0) \<and> isDigit rest 1 then
                   (let n = 2 + length (takeWhile is09 (drop 2 rest)) in
                    case parseNanoseconds rest n of
                      Inl e \<Rightarrow> Inl e
                    | Inr nsec \<Rightarrow> Inr (nsec, drop n rest))
                 else Inr (0, rest)) = Inr (nsec, [])"
    by (auto split: if_splits sum.splits prod.splits)
  have "valid_calendar body"
    using r by (simp add: valid_calendar_def daysIn_days_in_month [OF r(1,2), symmetric])
  then show ?thesis
    using b fraction_accepted [OF f] by (simp add: s l)
qed

text \<open>
  C3, as the program behaves. \<open>createDate\<close> fails on every text that violates the fixed
  structure or whose components are not a date of the calendar and a time of day, with
  one exception: a valid timestamp followed by a fraction of a second (a period or a
  comma and at least one digit). The regular expression of \<open>main\<close> rejects every text
  that is longer than fifteen characters, so that exception does not reach
  \<open>createDate\<close> from the command line.
\<close>

theorem createDate_rejects:
  assumes "\<not> validDT_MatchString s \<or> \<not> valid_calendar s"
    and "\<not> (validDT_MatchString (take 15 s) \<and> valid_calendar (take 15 s)
            \<and> fraction_suffix (drop 15 s))"
  shows "(\<exists>err. createDate local s = Inl err)
       \<and> (fraction_suffix (drop 15 s) \<longrightarrow> \<not> validDT_MatchString s)"
proof -
  have "\<exists>err. createDate local s = Inl err"
  proof (cases "createDate local s")
    case (Inl err)
    then show ?thesis by blast
  next
    case (Inr t)
    from createDate_Inr_valid [OF this] assms(2)
    have v: "validDT_MatchString (take 15 s)" "valid_calendar (take 15 s)" "drop 15 s = []"
      by auto
    then have "take 15 s = s" by simp
    with v assms(1) show ?thesis by simp
  qed
  moreover have "fraction_suffix (drop 15 s) \<longrightarrow> \<not> validDT_MatchString s"
    by (auto simp: fraction_suffix_def validDT_MatchString_def)
  ultimately show ?thesis by blast
qed

theorem createDate_rejects_witness:
  "(\<exists>err. createDate UTC ''20210230.120000'' = Inl err)
   \<and> (\<exists>err. createDate UTC ''20210329143025'' = Inl err)
   \<and> (\<exists>err. createDate UTC ''20210329.250000'' = Inl err)
   \<and> (\<exists>err. createDate UTC ''20210029.143025'' = Inl err)"
proof -
  have 1: "\<not> valid_calendar ''20210230.120000''" "\<not> validDT_MatchString ''20210329143025''"
    "\<not> valid_calendar ''20210329.250000''" "\<not> valid_calendar ''20210029.143025''"
    by code_simp+
  have 2: "\<not> fraction_suffix (drop 15 ''20210230.120000'')"
    "\<not> fraction_suffix (drop 15 ''20210329143025'')"
    "\<not> fraction_suffix (drop 15 ''20210329.250000'')"
    "\<not> fraction_suffix (drop 15 ''20210029.143025'')"
    by code_simp+
  show ?thesis
    using createDate_rejects [of "''20210230.120000''" UTC]
      createDate_rejects [of "''20210329143025''" UTC]
      createDate_rejects [of "''20210329.250000''" UTC]
      createDate_rejects [of "''20210029.143025''" UTC] 1 2
    by blast
qed

text \<open>
  C3, as the specification states it, fails: this text has a wrong number of digits,
  and \<open>createDate\<close> returns an instant for it.
\<close>

theorem createDate_accepts_fraction:
  "\<not> validDT_MatchString ''20210329.143025.5''
   \<and> createDate UTC ''20210329.143025.5'' =
       Inr \<lparr>t_unix = 1617028225, t_nsec = 500000000, t_loc = UTC\<rparr>"
proof -
  have "\<not> validDT_MatchString ''20210329.143025.5''" by code_simp
  moreover have "createDate UTC ''20210329.143025.5'' =
       Inr \<lparr>t_unix = 1617028225, t_nsec = 500000000, t_loc = UTC\<rparr>"
    by code_simp
  ultimately show ?thesis by simp
qed

end
